theory Spec2Isabelle
  imports Main
begin

section \<open>Python strings\<close>

text \<open>
  A Python \<open>str\<close> is modelled as a \<^typ>\<open>string\<close>, the UTF-8 bytes of its text. Every
  trigger, greeting and dictionary key of the service is ASCII; the non-ASCII text of the
  response table (emoji, bullets) is written as its bytes.

  \<open>str.lower\<close> and \<open>str.strip\<close> are built-ins of the interpreter, not code of the
  repository, and what they do beyond ASCII is given by the Unicode tables of the Python
  version in use (\<open>str.lower\<close> maps U+212A to \<open>k\<close>, \<open>str.strip\<close> removes U+00A0, and
  so on). The model takes the two methods as parameters, a record \<open>py\<close> of type
  \<open>builtins\<close>, and every function that calls them takes \<open>py\<close>. A theorem stated for
  all \<open>py\<close> holds whatever the two built-ins do.
\<close>

record builtins =
  str_lower :: "string \<Rightarrow> string"
  str_strip :: "string \<Rightarrow> string"

text \<open>\<open>sub in s\<close>: the string \<open>sub\<close> occurs in \<open>s\<close> as a contiguous substring.\<close>

definition startswith :: "string \<Rightarrow> string \<Rightarrow> bool" where
  "startswith s sub = (take (length sub) s = sub)"

fun str_in :: "string \<Rightarrow> string \<Rightarrow> bool" where
  "str_in sub [] = (sub = [])"
| "str_in sub (c # cs) = (if startswith (c # cs) sub then True else str_in sub cs)"

subsection \<open>The built-ins on ASCII text\<close>

text \<open>
  On a string of ASCII characters the two built-ins are fixed by the language:
  \<open>str.lower\<close> maps \<open>A\<close>..\<open>Z\<close> to \<open>a\<close>..\<open>z\<close> and leaves every other character as it is,
  and \<open>str.strip\<close> removes from both ends the characters for which \<open>str.isspace\<close> holds:
  tab, line feed, vertical tab, form feed, carriage return, the separators 0x1C..0x1F and
  the space. \<open>ascii_builtins\<close> is this behaviour, applied to every character below 0x80
  and no other; it is the instance at which the theorems are evaluated on concrete ASCII
  queries. \<open>agrees_on_ascii py\<close> says that \<open>py\<close> does on ASCII strings what the language
  fixes.
\<close>

definition ascii_uppercase :: string where
  "ascii_uppercase = ''ABCDEFGHIJKLMNOPQRSTUVWXYZ''"

definition ascii_lowercase :: string where
  "ascii_lowercase = ''abcdefghijklmnopqrstuvwxyz''"

definition ascii_lower_char :: "char \<Rightarrow> char" where
  "ascii_lower_char c =
     (case map_of (zip ascii_uppercase ascii_lowercase) c of
        None \<Rightarrow> c
      | Some l \<Rightarrow> l)"

definition ascii_lower :: "string \<Rightarrow> string" where
  "ascii_lower s = map ascii_lower_char s"

definition ascii_whitespace :: string where
  "ascii_whitespace =
     [CHR 0x09, CHR 0x0A, CHR 0x0B, CHR 0x0C, CHR 0x0D,
      CHR 0x1C, CHR 0x1D, CHR 0x1E, CHR 0x1F, CHR 0x20]"

definition ascii_isspace :: "char \<Rightarrow> bool" where
  "ascii_isspace c = (c \<in> set ascii_whitespace)"

definition ascii_lstrip :: "string \<Rightarrow> string" where
  "ascii_lstrip s = dropWhile ascii_isspace s"

definition ascii_rstrip :: "string \<Rightarrow> string" where
  "ascii_rstrip s = rev (dropWhile ascii_isspace (rev s))"

definition ascii_strip :: "string \<Rightarrow> string" where
  "ascii_strip s = ascii_rstrip (ascii_lstrip s)"

definition ascii_builtins :: builtins where
  "ascii_builtins = \<lparr>str_lower = ascii_lower, str_strip = ascii_strip\<rparr>"

definition is_ascii_char :: "char \<Rightarrow> bool" where
  "is_ascii_char c = ((of_char c :: nat) < 128)"

definition is_ascii :: "string \<Rightarrow> bool" where
  "is_ascii s = list_all is_ascii_char s"

definition agrees_on_ascii :: "builtins \<Rightarrow> bool" where
  "agrees_on_ascii py =
     (\<forall>s. is_ascii s \<longrightarrow> str_lower py s = ascii_lower s \<and> str_strip py s = ascii_strip s)"

subsection \<open>Laws of the built-ins\<close>

text \<open>
  Two claims need more of the built-ins than their values on ASCII; what they need is
  stated as a property of \<open>py\<close> and assumed where it is used.
  \<^item> \<open>lower_strip_laws\<close>: lowercasing twice is lowercasing once, stripping twice is
    stripping once, and the two commute.
  \<^item> \<open>strip_trims\<close>: \<open>strip\<close> cuts a prefix and a suffix off its argument, and every byte
    it cuts off is ASCII whitespace or belongs to a non-ASCII character.
\<close>

definition lower_strip_laws :: "builtins \<Rightarrow> bool" where
  "lower_strip_laws py =
     ((\<forall>s. str_lower py (str_lower py s) = str_lower py s)
      \<and> (\<forall>s. str_strip py (str_strip py s) = str_strip py s)
      \<and> (\<forall>s. str_lower py (str_strip py s) = str_strip py (str_lower py s)))"

definition strip_trims :: "builtins \<Rightarrow> bool" where
  "strip_trims py =
     (\<forall>s. \<exists>pre suf. s = pre @ str_strip py s @ suf
        \<and> list_all (\<lambda>c. ascii_isspace c \<or> \<not> is_ascii_char c) (pre @ suf))"

section \<open>Python dictionaries\<close>

text \<open>
  A \<open>dict\<close> keeps its keys in insertion order, so it is an association list with distinct
  keys. \<open>d[k]\<close> raises \<open>KeyError\<close> on a missing key; \<open>d[k] = v\<close> overwrites the value of a
  key in place and appends a new key at the end. \<open>max\<close> of an empty iterable raises
  \<open>ValueError\<close>.
\<close>

datatype error = KeyError string | ValueError

definition getitem :: "(string \<times> 'v) list \<Rightarrow> string \<Rightarrow> error + 'v" where
  "getitem d k = (case map_of d k of None \<Rightarrow> Inl (KeyError k) | Some v \<Rightarrow> Inr v)"

fun setitem :: "(string \<times> 'v) list \<Rightarrow> string \<Rightarrow> 'v \<Rightarrow> (string \<times> 'v) list" where
  "setitem [] k v = [(k, v)]"
| "setitem ((k', v') # d) k v = (if k' = k then (k, v) # d else (k', v') # setitem d k v)"

text \<open>
  \<open>max(matches, key=matches.get)\<close> walks the keys of \<open>matches\<close> in insertion order and
  compares the values stored under them: the first key is the candidate, and a later key
  replaces the candidate only when its value is strictly greater.
\<close>

fun max_loop :: "(string \<times> nat) list \<Rightarrow> string \<Rightarrow> nat \<Rightarrow> string" where
  "max_loop [] best best_val = best"
| "max_loop ((k, v) # items) best best_val =
     (if v > best_val then max_loop items k v else max_loop items best best_val)"

definition max_by_get :: "(string \<times> nat) list \<Rightarrow> error + string" where
  "max_by_get matches =
     (case matches of
        [] \<Rightarrow> Inl ValueError
      | (k, v) # items \<Rightarrow> Inr (max_loop items k v))"

section \<open>The voice assistant service\<close>

text \<open>
  \<open>class VoiceAssistantService\<close> of \<open>services/voice_service.py\<close>: an object with the two
  attributes that \<open>__init__\<close> assigns.
\<close>

record service =
  query_patterns :: "(string \<times> string list) list"
  responses :: "(string \<times> string) list"

text \<open>\<open>__init__\<close>: the keyword table and the response table, in the order of the source.\<close>

definition init :: service where
  "init = \<lparr>
     query_patterns =
       [(''weather'', [''weather'', ''temperature'', ''rain'', ''climate'', ''forecast'',
                       ''sunny'', ''cloudy'', ''humidity'']),
        (''prices'', [''price'', ''cost'', ''market'', ''sell'', ''buy'', ''rate'',
                      ''expensive'', ''cheap'', ''rupees'']),
        (''disease'', [''disease'', ''sick'', ''problem'', ''leaf'', ''plant'', ''crop'',
                       ''infection'', ''pest'', ''spots'', ''yellow'']),
        (''fertilizer'', [''fertilizer'', ''nutrient'', ''soil'', ''compost'', ''manure'',
                          ''nitrogen'', ''phosphorus'', ''potassium'']),
        (''cultivation'', [''seed'', ''planting'', ''growing'', ''cultivation'', ''harvest'',
                           ''farming'', ''irrigation'', ''water'']),
        (''pest'', [''pest'', ''insect'', ''bug'', ''caterpillar'', ''aphid'', ''mite'',
                    ''larvae'']),
        (''soil'', [''soil'', ''ph'', ''acidity'', ''alkaline'', ''drainage'', ''clay'',
                    ''sand'', ''loam'']),
        (''season'', [''season'', ''monsoon'', ''winter'', ''summer'', ''sowing'',
                      ''timing''])],
     responses =
       [(''weather'',
         [CHR 0xF0, CHR 0x9F, CHR 0x8C, CHR 0xA4, CHR 0xEF, CHR 0xB8, CHR 0x8F] @ '' To get current weather information, use the Weather tab. Enter your city name or allow location access to get real-time weather data including temperature, humidity, and wind speed.''),
        (''prices'',
         [CHR 0xF0, CHR 0x9F, CHR 0x92, CHR 0xB0] @ '' Check the Market Prices section for current rates of vegetables and fruits. You can filter by category to see specific produce prices in your area.''),
        (''disease'',
         [CHR 0xF0, CHR 0x9F, CHR 0x94, CHR 0xAC] @ '' For plant disease detection, use the Disease Detection tab. Take a clear photo of the affected plant leaves and upload it for AI-powered analysis and treatment recommendations.''),
        (''fertilizer'',
         [CHR 0xF0, CHR 0x9F, CHR 0x8C, CHR 0xB1] @ '' For fertilizer recommendations: Use nitrogen-rich fertilizers for leafy growth, phosphorus for root development, and potassium for flowering. Consider organic compost and get soil testing for specific nutrient needs.''),
        (''cultivation'',
         [CHR 0xF0, CHR 0x9F, CHR 0x9A, CHR 0x9C] @ '' Cultivation tips: Choose seeds based on your local climate and soil type. Ensure proper spacing, watering schedule, and crop rotation. Consult your local agricultural extension office for region-specific advice.''),
        (''pest'',
         [CHR 0xF0, CHR 0x9F, CHR 0x90, CHR 0x9B] @ '' For pest management: Use integrated pest management (IPM) approaches. Try neem oil, companion planting, and beneficial insects before chemical pesticides. Regular monitoring is key to early detection.''),
        (''soil'',
         [CHR 0xF0, CHR 0x9F, CHR 0x8F, CHR 0x94, CHR 0xEF, CHR 0xB8, CHR 0x8F] @ '' Soil health tips: Test your soil pH (6.0-7.0 is ideal for most crops). Improve drainage with organic matter. Add compost regularly to maintain soil structure and fertility.''),
        (''season'',
         [CHR 0xF0, CHR 0x9F, CHR 0x93, CHR 0x85] @ '' Seasonal farming: Plan crops according to local seasons. Monsoon is ideal for rice and sugarcane. Winter is good for wheat and vegetables. Summer crops include cotton and pulses.''),
        (''greeting'',
         [CHR 0xF0, CHR 0x9F, CHR 0x91, CHR 0x8B] @ '' Hello! I'm your GrowWise farming assistant. I can help you with weather information, market prices, plant disease detection, and general farming guidance. What would you like to know?''),
        (''default'',
         [CHR 0xF0, CHR 0x9F, CHR 0x8C, CHR 0xBE] @ '' I'm here to help with farming! I can assist with:\<newline>'' @ [CHR 0xE2, CHR 0x80, CHR 0xA2] @ '' Weather information\<newline>'' @ [CHR 0xE2, CHR 0x80, CHR 0xA2] @ '' Market prices\<newline>'' @ [CHR 0xE2, CHR 0x80, CHR 0xA2] @ '' Plant disease detection\<newline>'' @ [CHR 0xE2, CHR 0x80, CHR 0xA2] @ '' Soil and fertilizer advice\<newline>'' @ [CHR 0xE2, CHR 0x80, CHR 0xA2] @ '' Pest management\<newline>'' @ [CHR 0xE2, CHR 0x80, CHR 0xA2] @ '' Cultivation tips\<newline>\<newline>Please ask me something specific about farming!'')]
   \<rparr>"

text \<open>The module's global instance: \<open>voice_service = VoiceAssistantService()\<close>.\<close>

definition voice_service :: service where
  "voice_service = init"

text \<open>\<open>_is_greeting\<close>: the list is local to the method.\<close>

definition greetings :: "string list" where
  "greetings =
     [''hello'', ''hi'', ''hey'', ''good morning'', ''good afternoon'',
      ''good evening'', ''namaste'', ''greetings'', ''howdy'']"

definition is_greeting :: "string \<Rightarrow> bool" where
  "is_greeting query = list_ex (\<lambda>greeting. str_in greeting query) greetings"

text \<open>
  The scoring loop of \<open>process_query\<close>:
  \<^verbatim>\<open>match_count = sum(1 for keyword in keywords if keyword in query_lower)\<close>
  and, for a positive count, \<^verbatim>\<open>matches[category] = match_count\<close>.
\<close>

definition match_count :: "string list \<Rightarrow> string \<Rightarrow> nat" where
  "match_count keywords query_lower =
     sum_list (map (\<lambda>keyword. 1) (filter (\<lambda>keyword. str_in keyword query_lower) keywords))"

fun score :: "(string \<times> string list) list \<Rightarrow> string \<Rightarrow> (string \<times> nat) list
    \<Rightarrow> (string \<times> nat) list" where
  "score [] query_lower matches = matches"
| "score ((category, keywords) # items) query_lower matches =
     (if match_count keywords query_lower > 0
      then score items query_lower (setitem matches category (match_count keywords query_lower))
      else score items query_lower matches)"

text \<open>\<open>query_lower = query.lower().strip()\<close>\<close>

definition normalize_query :: "builtins \<Rightarrow> string \<Rightarrow> string" where
  "normalize_query py query = str_strip py (str_lower py query)"

definition process_query :: "builtins \<Rightarrow> service \<Rightarrow> string \<Rightarrow> error + string" where
  "process_query py self query =
     (let query_lower = normalize_query py query in
      if is_greeting query_lower then getitem (responses self) ''greeting''
      else
        let matches = score (query_patterns self) query_lower [] in
        if matches \<noteq> [] then
          (case max_by_get matches of
             Inl e \<Rightarrow> Inl e
           | Inr best_category \<Rightarrow> getitem (responses self) best_category)
        else getitem (responses self) ''default'')"

text \<open>
  The category of a query is the key under which \<open>process_query\<close> reads the response
  table: the same control flow, without the three table reads.
\<close>

definition classify :: "builtins \<Rightarrow> service \<Rightarrow> string \<Rightarrow> error + string" where
  "classify py self query =
     (let query_lower = normalize_query py query in
      if is_greeting query_lower then Inr ''greeting''
      else
        let matches = score (query_patterns self) query_lower [] in
        if matches \<noteq> [] then max_by_get matches
        else Inr ''default'')"

text \<open>
  \<open>get_help_response\<close> returns a dictionary literal with two keys; it reads nothing of
  \<open>self\<close>.
\<close>

definition get_help_response :: "service \<Rightarrow> (string \<times> string list) list" where
  "get_help_response self =
     [(''features'',
       [[CHR 0xF0, CHR 0x9F, CHR 0x8C, CHR 0xA4, CHR 0xEF, CHR 0xB8, CHR 0x8F] @ '' Weather Information - Get current weather for any location'',
        [CHR 0xF0, CHR 0x9F, CHR 0x92, CHR 0xB0] @ '' Market Prices - Check latest vegetable and fruit prices'',
        [CHR 0xF0, CHR 0x9F, CHR 0x94, CHR 0xAC] @ '' Disease Detection - Upload plant photos for disease diagnosis'',
        [CHR 0xF0, CHR 0x9F, CHR 0x8E, CHR 0xA4] @ '' Voice Assistant - Ask questions about farming'',
        [CHR 0xF0, CHR 0x9F, CHR 0x93, CHR 0x8A] @ '' Analytics - View usage statistics and history'']),
      (''sample_queries'',
       [''What is the weather like today?'',
        ''Show me tomato prices'',
        ''My plant leaves are turning yellow'',
        ''What fertilizer should I use for corn?'',
        ''How to manage pests in my crop?'',
        ''What is the best soil pH for vegetables?''])]"

text \<open>
  Calls on the shared instance. \<open>process_query\<close> assigns no attribute of \<open>self\<close> (its only
  variables are the locals \<open>query_lower\<close>, \<open>matches\<close> and \<open>best_category\<close>), so the object
  after a call is the object before it. \<open>serve\<close> is the instance after a sequence of
  requests; a process start evaluates the module and so begins at \<open>init\<close>.
\<close>

definition call_process_query ::
    "builtins \<Rightarrow> service \<Rightarrow> string \<Rightarrow> (error + string) \<times> service" where
  "call_process_query py self query = (process_query py self query, self)"

fun serve :: "builtins \<Rightarrow> service \<Rightarrow> string list \<Rightarrow> service" where
  "serve py self [] = self"
| "serve py self (query # queries) = serve py (snd (call_process_query py self query)) queries"

section \<open>The notions of the specification\<close>

text \<open>
  Substring containment stated without reference to the search loop, and the match count
  in the words of the specification: the number of distinct trigger strings of a category
  that occur anywhere in the normalized query.
\<close>

definition occurs_in :: "string \<Rightarrow> string \<Rightarrow> bool" where
  "occurs_in sub s = (\<exists>ps ss. s = ps @ sub @ ss)"

definition spec_match_count :: "string list \<Rightarrow> string \<Rightarrow> nat" where
  "spec_match_count triggers s = card {t \<in> set triggers. occurs_in t s}"

section \<open>Substring containment\<close>

lemma startswith_iff: "startswith s sub \<longleftrightarrow> (\<exists>ss. s = sub @ ss)"
  unfolding startswith_def
  by (metis append_eq_conv_conj append_take_drop_id)

lemma str_in_iff: "str_in sub s \<longleftrightarrow> (\<exists>ps ss. s = ps @ sub @ ss)"
proof (induction s)
  case Nil
  then show ?case by auto
next
  case (Cons c cs)
  show ?case
  proof
    assume "str_in sub (c # cs)"
    then consider "startswith (c # cs) sub" | "str_in sub cs"
      by (auto split: if_splits)
    then show "\<exists>ps ss. c # cs = ps @ sub @ ss"
    proof cases
      case 1
      then obtain ss where "c # cs = sub @ ss" by (auto simp: startswith_iff)
      then have "c # cs = [] @ sub @ ss" by simp
      then show ?thesis by blast
    next
      case 2
      with Cons.IH obtain ps ss where "cs = ps @ sub @ ss" by blast
      then have "c # cs = (c # ps) @ sub @ ss" by simp
      then show ?thesis by blast
    qed
  next
    assume "\<exists>ps ss. c # cs = ps @ sub @ ss"
    then obtain ps ss where eq: "c # cs = ps @ sub @ ss" by blast
    show "str_in sub (c # cs)"
    proof (cases ps)
      case Nil
      with eq have "startswith (c # cs) sub" by (auto simp: startswith_iff)
      then show ?thesis by simp
    next
      case (Cons p ps')
      with eq have "cs = ps' @ sub @ ss" by simp
      with Cons.IH have "str_in sub cs" by blast
      then show ?thesis by simp
    qed
  qed
qed

section \<open>The built-ins on ASCII text satisfy the laws\<close>

lemma lower_char_idem: "ascii_lower_char (ascii_lower_char c) = ascii_lower_char c"
  by (auto simp: ascii_lower_char_def ascii_uppercase_def ascii_lowercase_def)

lemma isspace_lower_char: "ascii_isspace (ascii_lower_char c) = ascii_isspace c"
  by (auto simp: ascii_lower_char_def ascii_uppercase_def ascii_lowercase_def ascii_isspace_def ascii_whitespace_def)

lemma lower_idem: "ascii_lower (ascii_lower s) = ascii_lower s"
  by (simp add: ascii_lower_def lower_char_idem)

lemma lstrip_lower: "ascii_lstrip (ascii_lower s) = ascii_lower (ascii_lstrip s)"
  by (simp add: ascii_lstrip_def ascii_lower_def dropWhile_map comp_def isspace_lower_char)

lemma rstrip_lower: "ascii_rstrip (ascii_lower s) = ascii_lower (ascii_rstrip s)"
  by (simp add: ascii_rstrip_def ascii_lower_def dropWhile_map comp_def isspace_lower_char rev_map)

lemma strip_lower: "ascii_strip (ascii_lower s) = ascii_lower (ascii_strip s)"
  by (simp add: ascii_strip_def lstrip_lower rstrip_lower)

lemma rstrip_prefix: "\<exists>w. t = ascii_rstrip t @ w"
proof -
  have "rev (takeWhile ascii_isspace (rev t) @ dropWhile ascii_isspace (rev t)) = rev (rev t)"
    by (simp only: takeWhile_dropWhile_id)
  then have "rev (dropWhile ascii_isspace (rev t)) @ rev (takeWhile ascii_isspace (rev t)) = t"
    by (simp only: rev_append rev_rev_ident)
  then have "t = ascii_rstrip t @ rev (takeWhile ascii_isspace (rev t))"
    by (simp only: ascii_rstrip_def)
  then show ?thesis ..
qed

lemma lstrip_rstrip_lstrip: "ascii_lstrip (ascii_rstrip (ascii_lstrip s)) = ascii_rstrip (ascii_lstrip s)"
proof (cases "ascii_rstrip (ascii_lstrip s) = []")
  case True
  then show ?thesis by (simp add: ascii_lstrip_def)
next
  case False
  obtain w where w: "ascii_lstrip s = ascii_rstrip (ascii_lstrip s) @ w" using rstrip_prefix by blast
  with False have ne: "ascii_lstrip s \<noteq> []" by auto
  from w False have "hd (ascii_rstrip (ascii_lstrip s)) = hd (ascii_lstrip s)"
    by (metis hd_append2)
  moreover from ne have "\<not> ascii_isspace (hd (ascii_lstrip s))"
    unfolding ascii_lstrip_def by (rule hd_dropWhile)
  ultimately have "\<not> ascii_isspace (hd (ascii_rstrip (ascii_lstrip s)))" by simp
  then show ?thesis
    unfolding ascii_lstrip_def[of "ascii_rstrip (ascii_lstrip s)"] by (simp add: dropWhile_eq_self_iff)
qed

lemma rstrip_idem: "ascii_rstrip (ascii_rstrip s) = ascii_rstrip s"
  by (simp add: ascii_rstrip_def)

lemma strip_idem: "ascii_strip (ascii_strip s) = ascii_strip s"
  by (simp add: ascii_strip_def lstrip_rstrip_lstrip rstrip_idem)

lemma ascii_laws: "lower_strip_laws ascii_builtins"
  by (simp add: lower_strip_laws_def ascii_builtins_def lower_idem strip_idem strip_lower)

lemma ascii_agrees: "agrees_on_ascii ascii_builtins"
  by (simp add: agrees_on_ascii_def ascii_builtins_def)

lemma ascii_strip_cut:
  "s = takeWhile ascii_isspace s @ ascii_strip s
         @ rev (takeWhile ascii_isspace (rev (ascii_lstrip s)))"
proof -
  have "rev (takeWhile ascii_isspace (rev (ascii_lstrip s)) @ dropWhile ascii_isspace (rev (ascii_lstrip s)))
      = rev (rev (ascii_lstrip s))"
    by (simp only: takeWhile_dropWhile_id)
  then have "ascii_lstrip s = ascii_strip s @ rev (takeWhile ascii_isspace (rev (ascii_lstrip s)))"
    by (simp only: rev_append rev_rev_ident ascii_strip_def ascii_rstrip_def)
  moreover have "s = takeWhile ascii_isspace s @ ascii_lstrip s"
    by (simp add: ascii_lstrip_def)
  ultimately show ?thesis by simp
qed

lemma ascii_trims: "strip_trims ascii_builtins"
  unfolding strip_trims_def
proof
  fix s
  let ?pre = "takeWhile ascii_isspace s"
  let ?suf = "rev (takeWhile ascii_isspace (rev (ascii_lstrip s)))"
  have "list_all (\<lambda>c. ascii_isspace c \<or> \<not> is_ascii_char c) (?pre @ ?suf)"
    by (auto simp: list_all_iff dest: set_takeWhileD)
  moreover have "s = ?pre @ str_strip ascii_builtins s @ ?suf"
    using ascii_strip_cut[of s] by (simp add: ascii_builtins_def)
  ultimately show "\<exists>pre suf. s = pre @ str_strip ascii_builtins s @ suf
      \<and> list_all (\<lambda>c. ascii_isspace c \<or> \<not> is_ascii_char c) (pre @ suf)"
    by blast
qed

lemma is_ascii_lower_char: "is_ascii_char c \<Longrightarrow> is_ascii_char (ascii_lower_char c)"
  by (auto simp: ascii_lower_char_def ascii_uppercase_def ascii_lowercase_def is_ascii_char_def)

lemma is_ascii_lower: "is_ascii s \<Longrightarrow> is_ascii (ascii_lower s)"
  by (simp add: is_ascii_def ascii_lower_def list_all_iff is_ascii_lower_char)

lemma normalize_ascii:
  assumes "agrees_on_ascii py" and "is_ascii q"
  shows "normalize_query py q = normalize_query ascii_builtins q"
proof -
  from assms have "str_lower py q = ascii_lower q"
    by (simp add: agrees_on_ascii_def)
  moreover from assms(2) have "is_ascii (ascii_lower q)" by (rule is_ascii_lower)
  with assms(1) have "str_strip py (ascii_lower q) = ascii_strip (ascii_lower q)"
    by (simp add: agrees_on_ascii_def)
  ultimately show ?thesis
    by (simp add: normalize_query_def ascii_builtins_def)
qed

section \<open>What the laws give\<close>

lemma normalize_lower_strip:
  "lower_strip_laws py \<Longrightarrow>
   normalize_query py (str_lower py (str_strip py q)) = normalize_query py q"
  by (simp add: lower_strip_laws_def normalize_query_def)

lemma normalize_strip_lower:
  "lower_strip_laws py \<Longrightarrow>
   normalize_query py (str_strip py (str_lower py q)) = normalize_query py q"
  by (simp add: lower_strip_laws_def normalize_query_def)

lemma occurs_in_cut:
  assumes s: "pre @ t @ suf = ps @ w @ ss" and ne: "w \<noteq> []"
    and hd: "hd w \<notin> set pre" and last: "last w \<notin> set suf"
  shows "\<exists>us vs. t = us @ w @ vs"
proof -
  have front: "\<exists>us. ps = pre @ us \<and> t @ suf = us @ w @ ss"
  proof -
    from s obtain us where
      "pre = ps @ us \<and> us @ (t @ suf) = w @ ss \<or> pre @ us = ps \<and> t @ suf = us @ (w @ ss)"
      unfolding append_eq_append_conv2[of pre "t @ suf" ps "w @ ss"] by blast
    then show ?thesis
    proof
      assume a: "pre = ps @ us \<and> us @ (t @ suf) = w @ ss"
      show ?thesis
      proof (cases us)
        case Nil
        with a show ?thesis by simp
      next
        case (Cons u us')
        with a ne have "u = hd w" by (cases w) auto
        with a Cons hd show ?thesis by simp
      qed
    next
      assume "pre @ us = ps \<and> t @ suf = us @ (w @ ss)"
      then show ?thesis by auto
    qed
  qed
  then obtain us where us: "t @ suf = (us @ w) @ ss" by auto
  then obtain vs where
    "t = (us @ w) @ vs \<and> vs @ suf = ss \<or> t @ vs = us @ w \<and> suf = vs @ ss"
    unfolding append_eq_append_conv2[of t suf "us @ w" ss] by blast
  then show ?thesis
  proof
    assume "t = (us @ w) @ vs \<and> vs @ suf = ss"
    then have "t = us @ w @ vs" by simp
    then show ?thesis by blast
  next
    assume b: "t @ vs = us @ w \<and> suf = vs @ ss"
    show ?thesis
    proof (cases "vs = []")
      case True
      with b have "t = us @ w @ []" by simp
      then show ?thesis by blast
    next
      case False
      from b have "last (t @ vs) = last (us @ w)" by simp
      with False ne have "last vs = last w" by simp
      moreover from False b have "last vs \<in> set suf" by simp
      ultimately show ?thesis using last by simp
    qed
  qed
qed

lemma occurs_in_trimmed:
  assumes "strip_trims py" and "occurs_in w s" and "w \<noteq> []"
    and "is_ascii_char (hd w)" "\<not> ascii_isspace (hd w)"
    and "is_ascii_char (last w)" "\<not> ascii_isspace (last w)"
  shows "occurs_in w (str_strip py s)"
proof -
  from assms(1) obtain pre suf where cut: "s = pre @ str_strip py s @ suf"
    and ws: "list_all (\<lambda>c. ascii_isspace c \<or> \<not> is_ascii_char c) (pre @ suf)"
    unfolding strip_trims_def by blast
  from assms(2) obtain ps ss where "s = ps @ w @ ss"
    unfolding occurs_in_def by blast
  with cut have eq: "pre @ str_strip py s @ suf = ps @ w @ ss" by simp
  from ws assms(4,5) have "hd w \<notin> set pre" by (auto simp: list_all_iff)
  moreover from ws assms(6,7) have "last w \<notin> set suf" by (auto simp: list_all_iff)
  ultimately show ?thesis
    using occurs_in_cut[OF eq assms(3)] unfolding occurs_in_def by blast
qed

section \<open>The scoring loop and the maximum\<close>

lemma setitem_fresh: "k \<notin> fst ` set d \<Longrightarrow> setitem d k v = d @ [(k, v)]"
  by (induction d) auto

lemma setitem_keys: "fst ` set (setitem d k v) = insert k (fst ` set d)"
  by (induction d k v rule: setitem.induct) auto

lemma score_fresh:
  "distinct (map fst tbl) \<Longrightarrow> fst ` set acc \<inter> fst ` set tbl = {} \<Longrightarrow>
   score tbl q acc = acc @ filter (\<lambda>(c, n). 0 < n) (map (\<lambda>(c, ks). (c, match_count ks q)) tbl)"
proof (induction tbl q acc rule: score.induct)
  case (1 q acc)
  then show ?case by simp
next
  case (2 category kws items q acc)
  show ?case
  proof (cases "0 < match_count kws q")
    case True
    have fresh: "category \<notin> fst ` set acc" using 2(4) by auto
    have "fst ` set (setitem acc category (match_count kws q)) \<inter> fst ` set items = {}"
      using 2(3,4) by (auto simp: setitem_fresh[OF fresh])
    with 2(1)[OF True] 2(3) True show ?thesis
      by (simp add: setitem_fresh[OF fresh])
  next
    case False
    have "fst ` set acc \<inter> fst ` set items = {}" using 2(4) by auto
    with 2(2) 2(3) False show ?thesis by simp
  qed
qed

lemma score_keys: "fst ` set (score tbl q acc) \<subseteq> fst ` set acc \<union> fst ` set tbl"
proof (induction tbl q acc rule: score.induct)
  case (1 q acc)
  then show ?case by simp
next
  case (2 category kws items q acc)
  show ?case
  proof (cases "0 < match_count kws q")
    case True
    with 2(1) show ?thesis by (auto simp: setitem_keys)
  next
    case False
    with 2(2) show ?thesis by auto
  qed
qed

lemma max_loop_le: "\<forall>(k, v) \<in> set items. v \<le> bv \<Longrightarrow> max_loop items best bv = best"
  by (induction items best bv rule: max_loop.induct) auto

lemma max_loop_first_max:
  "bv < n \<Longrightarrow> \<forall>(k, v) \<in> set A. v < n \<Longrightarrow> \<forall>(k, v) \<in> set B. v \<le> n \<Longrightarrow>
   max_loop (A @ (c, n) # B) best bv = c"
proof (induction A arbitrary: best bv)
  case Nil
  then show ?case by (simp add: max_loop_le)
next
  case (Cons a A)
  obtain k v where a: "a = (k, v)" by (cases a)
  with Cons.prems have "v < n" by simp
  with Cons a show ?case by simp
qed

lemma max_by_get_first_max:
  "\<forall>(k, v) \<in> set A. v < n \<Longrightarrow> \<forall>(k, v) \<in> set B. v \<le> n \<Longrightarrow>
   max_by_get (A @ (c, n) # B) = Inr c"
  by (cases A) (auto simp: max_by_get_def max_loop_le max_loop_first_max)

lemma max_loop_mem: "max_loop items best bv \<in> insert best (fst ` set items)"
  by (induction items best bv rule: max_loop.induct) (auto split: if_splits)

lemma max_by_get_mem: "matches \<noteq> [] \<Longrightarrow> \<exists>k. max_by_get matches = Inr k \<and> k \<in> fst ` set matches"
proof (cases matches)
  case Nil
  assume "matches \<noteq> []"
  with Nil show ?thesis by simp
next
  case (Cons a items)
  obtain k v where a: "a = (k, v)" by (cases a)
  have "max_loop items k v \<in> insert k (fst ` set items)" by (rule max_loop_mem)
  with Cons a show ?thesis by (simp add: max_by_get_def)
qed

section \<open>The specification's notions, computed\<close>

lemma occurs_in_code [code]: "occurs_in sub s = str_in sub s"
  by (simp add: occurs_in_def str_in_iff)

lemma match_count_length: "match_count ks s = length (filter (\<lambda>t. str_in t s) ks)"
  unfolding match_count_def by (induction ks) auto

lemma spec_match_count_code [code]:
  "spec_match_count ks s = length (filter (\<lambda>t. str_in t s) (remdups ks))"
proof -
  have "{t \<in> set ks. occurs_in t s} = set (filter (\<lambda>t. str_in t s) (remdups ks))"
    by (auto simp: occurs_in_code)
  moreover have "distinct (filter (\<lambda>t. str_in t s) (remdups ks))"
    by simp
  ultimately show ?thesis
    unfolding spec_match_count_def by (simp only: distinct_card)
qed

lemma match_count_spec: "distinct ks \<Longrightarrow> match_count ks s = spec_match_count ks s"
  by (simp add: match_count_length spec_match_count_code distinct_remdups_id)

lemma spec_match_count_zero:
  "spec_match_count ks s = 0 \<longleftrightarrow> (\<forall>t \<in> set ks. \<not> occurs_in t s)"
  by (auto simp: spec_match_count_code occurs_in_code filter_empty_conv)

lemma is_greeting_iff: "is_greeting s \<longleftrightarrow> (\<exists>g \<in> set greetings. occurs_in g s)"
  by (simp add: is_greeting_def list_ex_iff occurs_in_code)

section \<open>The tables of the service\<close>

lemma query_patterns_voice_service:
  "query_patterns voice_service =
     [(''weather'', [''weather'', ''temperature'', ''rain'', ''climate'', ''forecast'',
                     ''sunny'', ''cloudy'', ''humidity'']),
      (''prices'', [''price'', ''cost'', ''market'', ''sell'', ''buy'', ''rate'',
                    ''expensive'', ''cheap'', ''rupees'']),
      (''disease'', [''disease'', ''sick'', ''problem'', ''leaf'', ''plant'', ''crop'',
                     ''infection'', ''pest'', ''spots'', ''yellow'']),
      (''fertilizer'', [''fertilizer'', ''nutrient'', ''soil'', ''compost'', ''manure'',
                        ''nitrogen'', ''phosphorus'', ''potassium'']),
      (''cultivation'', [''seed'', ''planting'', ''growing'', ''cultivation'', ''harvest'',
                         ''farming'', ''irrigation'', ''water'']),
      (''pest'', [''pest'', ''insect'', ''bug'', ''caterpillar'', ''aphid'', ''mite'',
                  ''larvae'']),
      (''soil'', [''soil'', ''ph'', ''acidity'', ''alkaline'', ''drainage'', ''clay'',
                  ''sand'', ''loam'']),
      (''season'', [''season'', ''monsoon'', ''winter'', ''summer'', ''sowing'',
                    ''timing''])]"
  by (simp add: voice_service_def init_def)

lemma categories_voice_service:
  "map fst (query_patterns voice_service) =
     [''weather'', ''prices'', ''disease'', ''fertilizer'', ''cultivation'', ''pest'', ''soil'',
      ''season'']"
  by (simp add: query_patterns_voice_service)

lemma distinct_categories: "distinct (map fst (query_patterns voice_service))"
  by (simp add: categories_voice_service)

lemma distinct_triggers: "(c, ks) \<in> set (query_patterns voice_service) \<Longrightarrow> distinct ks"
  by (auto simp: query_patterns_voice_service)

lemma response_keys:
  "map fst (responses voice_service) =
     [''weather'', ''prices'', ''disease'', ''fertilizer'', ''cultivation'', ''pest'', ''soil'',
      ''season'', ''greeting'', ''default'']"
  by (simp add: voice_service_def init_def)

lemma responses_nonempty: "(k, r) \<in> set (responses voice_service) \<Longrightarrow> r \<noteq> []"
  by (auto simp: voice_service_def init_def)

lemma getitem_responses:
  assumes "k \<in> set (map fst (responses voice_service))"
  shows "\<exists>r. getitem (responses voice_service) k = Inr r \<and> map_of (responses voice_service) k = Some r \<and> r \<noteq> []"
proof -
  from assms obtain r where "map_of (responses voice_service) k = Some r"
    by (metis map_of_eq_None_iff not_Some_eq set_map)
  moreover from this have "(k, r) \<in> set (responses voice_service)" by (rule map_of_SomeD)
  then have "r \<noteq> []" by (rule responses_nonempty)
  ultimately show ?thesis by (simp add: getitem_def)
qed

section \<open>Classification\<close>

lemma matches_voice_service:
  "score (query_patterns voice_service) s [] =
     filter (\<lambda>(c, n). 0 < n) (map (\<lambda>(c, ks). (c, match_count ks s)) (query_patterns voice_service))"
  using score_fresh[OF distinct_categories, of "[]" s] by simp

lemma classify_greeting: "is_greeting (normalize_query py q) \<Longrightarrow> classify py self q = Inr ''greeting''"
  by (simp add: classify_def)

lemma classify_default:
  assumes "\<not> is_greeting (normalize_query py q)"
    and "\<forall>(c, ks) \<in> set (query_patterns voice_service). match_count ks (normalize_query py q) = 0"
  shows "classify py voice_service q = Inr ''default''"
proof -
  from assms(2) have "score (query_patterns voice_service) (normalize_query py q) [] = []"
    unfolding matches_voice_service by (auto simp: filter_empty_conv)
  with assms(1) show ?thesis by (simp add: classify_def)
qed

lemma classify_first_max:
  assumes tbl: "query_patterns voice_service = pre @ (c, ks) # post"
    and ng: "\<not> is_greeting (normalize_query py q)"
    and pos: "0 < match_count ks (normalize_query py q)"
    and pre: "\<forall>(c', ks') \<in> set pre. match_count ks' (normalize_query py q) < match_count ks (normalize_query py q)"
    and post: "\<forall>(c', ks') \<in> set post. match_count ks' (normalize_query py q) \<le> match_count ks (normalize_query py q)"
  shows "classify py voice_service q = Inr c"
proof -
  let ?n = "match_count ks (normalize_query py q)"
  let ?f = "\<lambda>tbl. filter (\<lambda>(c, n). 0 < n) (map (\<lambda>(c, ks). (c, match_count ks (normalize_query py q))) tbl)"
  have m: "score (query_patterns voice_service) (normalize_query py q) [] = ?f pre @ (c, ?n) # ?f post"
    using matches_voice_service[of "normalize_query py q"] pos unfolding tbl by simp
  have "\<forall>(k, v) \<in> set (?f pre). v < ?n" using pre by auto
  moreover have "\<forall>(k, v) \<in> set (?f post). v \<le> ?n" using post by auto
  ultimately have "max_by_get (?f pre @ (c, ?n) # ?f post) = Inr c"
    by (rule max_by_get_first_max)
  with m ng show ?thesis by (simp add: classify_def)
qed

lemma classify_closed:
  "\<exists>c. classify py voice_service q = Inr c \<and> c \<in> set (map fst (responses voice_service))"
proof (cases "is_greeting (normalize_query py q)")
  case True
  then show ?thesis by (simp add: classify_def response_keys)
next
  case ng: False
  let ?m = "score (query_patterns voice_service) (normalize_query py q) []"
  show ?thesis
  proof (cases "?m = []")
    case True
    with ng show ?thesis by (simp add: classify_def response_keys)
  next
    case False
    then obtain k where k: "max_by_get ?m = Inr k" "k \<in> fst ` set ?m"
      using max_by_get_mem by blast
    have "fst ` set ?m \<subseteq> fst ` set (query_patterns voice_service)"
      using score_keys[of "query_patterns voice_service" "normalize_query py q" "[]"] by simp
    with k(2) have "k \<in> set (map fst (query_patterns voice_service))" by auto
    then have "k \<in> set (map fst (responses voice_service))"
      unfolding categories_voice_service response_keys by auto
    with k(1) ng False show ?thesis by (simp add: classify_def)
  qed
qed

lemma process_query_classify:
  "process_query py self q =
     (case classify py self q of Inl e \<Rightarrow> Inl e | Inr c \<Rightarrow> getitem (responses self) c)"
  by (simp add: process_query_def classify_def Let_def)

lemma responses_distinct: "distinct (map snd (responses voice_service))"
  by (simp add: voice_service_def init_def)

section \<open>Calls on the instance and normalized queries\<close>

lemma serve_id: "serve py self history = self"
  by (induction history arbitrary: self) (simp_all add: call_process_query_def)

lemma classify_normalized:
  "normalize_query py q = normalize_query py' q' \<Longrightarrow> classify py self q = classify py' self q'"
  by (simp add: classify_def)

lemma process_query_normalized:
  "normalize_query py q = normalize_query py' q' \<Longrightarrow>
   process_query py self q = process_query py' self q'"
  by (simp add: process_query_def)

text \<open>
  On an ASCII query every \<open>py\<close> that agrees with the language on ASCII answers as
  \<open>ascii_builtins\<close> does, so such an answer can be computed.
\<close>

lemma ascii_query:
  assumes "agrees_on_ascii py" and "is_ascii q"
  shows "classify py self q = classify ascii_builtins self q"
    and "process_query py self q = process_query ascii_builtins self q"
    and "normalize_query py q = normalize_query ascii_builtins q"
proof -
  note n = normalize_ascii[OF assms]
  show "classify py self q = classify ascii_builtins self q"
    using n by (rule classify_normalized)
  show "process_query py self q = process_query ascii_builtins self q"
    using n by (rule process_query_normalized)
  show "normalize_query py q = normalize_query ascii_builtins q"
    by (rule n)
qed

lemma ascii_example:
  assumes "agrees_on_ascii py" and "is_ascii q" and "classify ascii_builtins self q = Inr c"
  shows "classify py self q = Inr c \<and> process_query py self q = getitem (responses self) c"
proof -
  from assms have "classify py self q = Inr c"
    by (simp only: ascii_query(1))
  then show ?thesis by (simp add: process_query_classify)
qed

lemma selected_response:
  "classify py self q = Inr c \<Longrightarrow> process_query py self q = getitem (responses self) c"
  by (simp add: process_query_classify)

text \<open>
  A category of the keyword table whose count is strictly above every other count is the
  one selected.
\<close>

lemma strictly_highest_wins:
  assumes ng: "\<not> is_greeting (normalize_query py q)"
    and mem: "(c, ks) \<in> set (query_patterns voice_service)"
    and top: "\<forall>(c', ks') \<in> set (query_patterns voice_service). c' \<noteq> c \<longrightarrow>
        spec_match_count ks' (normalize_query py q) < spec_match_count ks (normalize_query py q)"
  shows "classify py voice_service q = Inr c"
proof -
  let ?s = "normalize_query py q"
  let ?tbl = "query_patterns voice_service"
  have count: "match_count ks ?s = spec_match_count ks ?s" if "(c, ks) \<in> set ?tbl" for c ks
    using that by (simp add: match_count_spec distinct_triggers)
  from mem obtain pre post where tbl: "?tbl = pre @ (c, ks) # post"
    by (auto dest: split_list)
  have other: "c' \<noteq> c" if "(c', ks') \<in> set pre \<union> set post" for c' ks'
  proof -
    from distinct_categories have "distinct (map fst (pre @ (c, ks) # post))"
      by (simp only: tbl)
    with that show ?thesis by (auto simp: image_iff)
  qed
  have less: "match_count ks' ?s < match_count ks ?s"
    if "(c', ks') \<in> set pre \<union> set post" for c' ks'
  proof -
    from that have m: "(c', ks') \<in> set ?tbl" by (auto simp: tbl)
    with top other[OF that] have "spec_match_count ks' ?s < spec_match_count ks ?s"
      by auto
    with count[OF m] count[OF mem] show ?thesis by simp
  qed
  have "length ?tbl = 8" by (simp add: query_patterns_voice_service)
  then have "pre @ post \<noteq> []" by (auto simp: tbl)
  then obtain c' ks' where "(c', ks') \<in> set pre \<union> set post"
    by (cases "pre @ post") (auto, metis Un_iff set_append list.set_intros(1))
  from less[OF this] have pos: "0 < match_count ks ?s" by simp
  show ?thesis
  proof (rule classify_first_max[OF tbl ng pos])
    show "\<forall>(c', ks') \<in> set pre. match_count ks' ?s < match_count ks ?s"
      using less by auto
    show "\<forall>(c', ks') \<in> set post. match_count ks' ?s \<le> match_count ks ?s"
      using less by (auto intro: less_imp_le)
  qed
qed

section \<open>Claims\<close>

text \<open>
  Claim C1. For every query whose normalized form contains no greeting substring, the
  count that the scoring loop computes for a category of the keyword table is the number
  of distinct triggers of that category occurring as substrings of the normalized query,
  and a category whose count is strictly higher than the count of every other category is
  the category selected: \<open>process_query\<close> returns its response. This holds whatever the
  built-ins do. With built-ins that treat ASCII as the language fixes,
  \<open>what is the weather forecast today\<close> is classified as \<open>weather\<close>.
\<close>

theorem classify_keyword_scoring:
  "(\<not> (\<exists>g \<in> set greetings. occurs_in g (normalize_query py q)) \<longrightarrow>
      (\<forall>(c, ks) \<in> set (query_patterns voice_service).
          match_count ks (normalize_query py q) = spec_match_count ks (normalize_query py q) \<and>
          ((\<forall>(c', ks') \<in> set (query_patterns voice_service).
               c' \<noteq> c \<longrightarrow>
               spec_match_count ks' (normalize_query py q)
                 < spec_match_count ks (normalize_query py q))
           \<longrightarrow> classify py voice_service q = Inr c
               \<and> process_query py voice_service q = getitem (responses voice_service) c)))
   \<and> (agrees_on_ascii py \<longrightarrow>
        classify py voice_service ''what is the weather forecast today'' = Inr ''weather''
        \<and> process_query py voice_service ''what is the weather forecast today''
            = getitem (responses voice_service) ''weather'')"
proof (rule conjI)
  show "\<not> (\<exists>g \<in> set greetings. occurs_in g (normalize_query py q)) \<longrightarrow>
      (\<forall>(c, ks) \<in> set (query_patterns voice_service).
          match_count ks (normalize_query py q) = spec_match_count ks (normalize_query py q) \<and>
          ((\<forall>(c', ks') \<in> set (query_patterns voice_service).
               c' \<noteq> c \<longrightarrow>
               spec_match_count ks' (normalize_query py q)
                 < spec_match_count ks (normalize_query py q))
           \<longrightarrow> classify py voice_service q = Inr c
               \<and> process_query py voice_service q = getitem (responses voice_service) c))"
  proof (rule impI, rule ballI, clarify)
    fix c ks
    assume "\<not> (\<exists>g \<in> set greetings. occurs_in g (normalize_query py q))"
    then have ng: "\<not> is_greeting (normalize_query py q)" by (simp add: is_greeting_iff)
    assume mem: "(c, ks) \<in> set (query_patterns voice_service)"
    have count: "match_count ks (normalize_query py q) = spec_match_count ks (normalize_query py q)"
      using mem by (simp add: match_count_spec distinct_triggers)
    have best: "classify py voice_service q = Inr c
        \<and> process_query py voice_service q = getitem (responses voice_service) c"
      if "\<forall>(c', ks') \<in> set (query_patterns voice_service). c' \<noteq> c \<longrightarrow>
            spec_match_count ks' (normalize_query py q) < spec_match_count ks (normalize_query py q)"
      using strictly_highest_wins[OF ng mem that] by (simp add: selected_response)
    from count best
    show "match_count ks (normalize_query py q) = spec_match_count ks (normalize_query py q) \<and>
          ((\<forall>(c', ks') \<in> set (query_patterns voice_service).
               c' \<noteq> c \<longrightarrow>
               spec_match_count ks' (normalize_query py q)
                 < spec_match_count ks (normalize_query py q))
           \<longrightarrow> classify py voice_service q = Inr c
               \<and> process_query py voice_service q = getitem (responses voice_service) c)"
      by blast
  qed
next
  show "agrees_on_ascii py \<longrightarrow>
        classify py voice_service ''what is the weather forecast today'' = Inr ''weather''
        \<and> process_query py voice_service ''what is the weather forecast today''
            = getitem (responses voice_service) ''weather''"
  proof
    assume "agrees_on_ascii py"
    then show "classify py voice_service ''what is the weather forecast today'' = Inr ''weather''
        \<and> process_query py voice_service ''what is the weather forecast today''
            = getitem (responses voice_service) ''weather''"
    proof (rule ascii_example)
      show "is_ascii ''what is the weather forecast today''" by code_simp
      show "classify ascii_builtins voice_service ''what is the weather forecast today''
          = Inr ''weather''"
        by code_simp
    qed
  qed
qed

text \<open>
  The hypotheses of C1 hold at \<open>what is the weather forecast today\<close> with the ASCII
  built-ins: no greeting occurs, \<open>weather\<close> has two triggers in the query and every other
  category has fewer; the response returned is the non-empty entry of \<open>weather\<close>.
\<close>

theorem classify_keyword_scoring_witness:
  "\<not> (\<exists>g \<in> set greetings. occurs_in g (normalize_query ascii_builtins ''what is the weather forecast today''))
   \<and> match_count [''weather'', ''temperature'', ''rain'', ''climate'', ''forecast'', ''sunny'', ''cloudy'', ''humidity''] (normalize_query ascii_builtins ''what is the weather forecast today'') = 2
   \<and> spec_match_count [''weather'', ''temperature'', ''rain'', ''climate'', ''forecast'', ''sunny'', ''cloudy'', ''humidity''] (normalize_query ascii_builtins ''what is the weather forecast today'') = 2
   \<and> classify ascii_builtins voice_service ''what is the weather forecast today'' = Inr ''weather''
   \<and> (\<exists>r. map_of (responses voice_service) ''weather'' = Some r \<and> r \<noteq> []
          \<and> process_query ascii_builtins voice_service ''what is the weather forecast today'' = Inr r)"
proof -
  have h: "\<not> (\<exists>g \<in> set greetings. occurs_in g (normalize_query ascii_builtins ''what is the weather forecast today''))"
    by code_simp
  have mem: "(''weather'', [''weather'', ''temperature'', ''rain'', ''climate'', ''forecast'', ''sunny'', ''cloudy'', ''humidity'']) \<in> set (query_patterns voice_service)"
    by (simp add: query_patterns_voice_service)
  have top: "\<forall>(c', ks') \<in> set (query_patterns voice_service). c' \<noteq> ''weather'' \<longrightarrow>
      spec_match_count ks' (normalize_query ascii_builtins ''what is the weather forecast today'')
        < spec_match_count [''weather'', ''temperature'', ''rain'', ''climate'', ''forecast'', ''sunny'', ''cloudy'', ''humidity''] (normalize_query ascii_builtins ''what is the weather forecast today'')"
    by code_simp
  have two: "spec_match_count [''weather'', ''temperature'', ''rain'', ''climate'', ''forecast'', ''sunny'', ''cloudy'', ''humidity''] (normalize_query ascii_builtins ''what is the weather forecast today'') = 2"
    by code_simp
  note all = conjunct1[OF classify_keyword_scoring[of ascii_builtins "''what is the weather forecast today''"], THEN mp, OF h]
  from all mem
  have t: "match_count [''weather'', ''temperature'', ''rain'', ''climate'', ''forecast'', ''sunny'', ''cloudy'', ''humidity''] (normalize_query ascii_builtins ''what is the weather forecast today'')
        = spec_match_count [''weather'', ''temperature'', ''rain'', ''climate'', ''forecast'', ''sunny'', ''cloudy'', ''humidity''] (normalize_query ascii_builtins ''what is the weather forecast today'') \<and>
      ((\<forall>(c', ks') \<in> set (query_patterns voice_service). c' \<noteq> ''weather'' \<longrightarrow>
          spec_match_count ks' (normalize_query ascii_builtins ''what is the weather forecast today'')
            < spec_match_count [''weather'', ''temperature'', ''rain'', ''climate'', ''forecast'', ''sunny'', ''cloudy'', ''humidity''] (normalize_query ascii_builtins ''what is the weather forecast today''))
       \<longrightarrow> classify ascii_builtins voice_service ''what is the weather forecast today'' = Inr ''weather''
           \<and> process_query ascii_builtins voice_service ''what is the weather forecast today''
               = getitem (responses voice_service) ''weather'')"
    by blast
  from t have cnt: "match_count [''weather'', ''temperature'', ''rain'', ''climate'', ''forecast'', ''sunny'', ''cloudy'', ''humidity''] (normalize_query ascii_builtins ''what is the weather forecast today'')
      = spec_match_count [''weather'', ''temperature'', ''rain'', ''climate'', ''forecast'', ''sunny'', ''cloudy'', ''humidity''] (normalize_query ascii_builtins ''what is the weather forecast today'')"
    by (rule conjunct1)
  from conjunct2[OF t] top
  have sel: "classify ascii_builtins voice_service ''what is the weather forecast today'' = Inr ''weather''
      \<and> process_query ascii_builtins voice_service ''what is the weather forecast today'' = getitem (responses voice_service) ''weather''"
    by (rule mp)
  have "''weather'' \<in> set (map fst (responses voice_service))"
    by (simp add: response_keys)
  then obtain r where r: "getitem (responses voice_service) ''weather'' = Inr r"
    "map_of (responses voice_service) ''weather'' = Some r" "r \<noteq> []"
    using getitem_responses by blast
  from sel r(1) have p: "process_query ascii_builtins voice_service ''what is the weather forecast today'' = Inr r"
    by simp
  from cnt two have m2: "match_count [''weather'', ''temperature'', ''rain'', ''climate'', ''forecast'', ''sunny'', ''cloudy'', ''humidity''] (normalize_query ascii_builtins ''what is the weather forecast today'') = 2" by simp
  from r(2,3) p have ex: "\<exists>r. map_of (responses voice_service) ''weather'' = Some r \<and> r \<noteq> []
          \<and> process_query ascii_builtins voice_service ''what is the weather forecast today'' = Inr r"
    by (intro exI conjI)
  from h m2 two conjunct1[OF sel] ex show ?thesis by (intro conjI)
qed

text \<open>
  Claim C2. A query whose normalized form contains one of the nine greeting substrings is
  classified as \<open>greeting\<close> and answered with the greeting response, whatever triggers
  of the keyword table occur in it and whatever the built-ins do. With built-ins that
  treat ASCII as the language fixes, \<open>hello, what fertilizer do I need\<close>, which contains
  the trigger \<open>fertilizer\<close>, is classified as \<open>greeting\<close>.
\<close>

theorem greeting_precedence:
  "(g \<in> {''hello'', ''hi'', ''hey'', ''good morning'', ''good afternoon'',
          ''good evening'', ''namaste'', ''greetings'', ''howdy''} \<longrightarrow>
    occurs_in g (normalize_query py q) \<longrightarrow>
      classify py voice_service q = Inr ''greeting''
      \<and> process_query py voice_service q = getitem (responses voice_service) ''greeting'')
   \<and> (agrees_on_ascii py \<longrightarrow>
        occurs_in ''fertilizer'' (normalize_query py ''hello, what fertilizer do I need'')
        \<and> classify py voice_service ''hello, what fertilizer do I need'' = Inr ''greeting''
        \<and> process_query py voice_service ''hello, what fertilizer do I need''
            = getitem (responses voice_service) ''greeting'')"
proof (rule conjI)
  show "g \<in> {''hello'', ''hi'', ''hey'', ''good morning'', ''good afternoon'',
          ''good evening'', ''namaste'', ''greetings'', ''howdy''} \<longrightarrow>
    occurs_in g (normalize_query py q) \<longrightarrow>
      classify py voice_service q = Inr ''greeting''
      \<and> process_query py voice_service q = getitem (responses voice_service) ''greeting''"
  proof (intro impI)
    assume "g \<in> {''hello'', ''hi'', ''hey'', ''good morning'', ''good afternoon'',
          ''good evening'', ''namaste'', ''greetings'', ''howdy''}"
    then have "g \<in> set greetings" by (simp add: greetings_def)
    moreover assume "occurs_in g (normalize_query py q)"
    ultimately have "is_greeting (normalize_query py q)"
      unfolding is_greeting_iff by blast
    then have "classify py voice_service q = Inr ''greeting''" by (rule classify_greeting)
    then show "classify py voice_service q = Inr ''greeting''
      \<and> process_query py voice_service q = getitem (responses voice_service) ''greeting''"
      by (simp add: selected_response)
  qed
next
  show "agrees_on_ascii py \<longrightarrow>
        occurs_in ''fertilizer'' (normalize_query py ''hello, what fertilizer do I need'')
        \<and> classify py voice_service ''hello, what fertilizer do I need'' = Inr ''greeting''
        \<and> process_query py voice_service ''hello, what fertilizer do I need''
            = getitem (responses voice_service) ''greeting''"
  proof
    assume a: "agrees_on_ascii py"
    have i: "is_ascii ''hello, what fertilizer do I need''" by code_simp
    have "occurs_in ''fertilizer'' (normalize_query ascii_builtins ''hello, what fertilizer do I need'')"
      by code_simp
    then have f: "occurs_in ''fertilizer'' (normalize_query py ''hello, what fertilizer do I need'')"
      by (simp only: ascii_query(3)[OF a i])
    have "classify ascii_builtins voice_service ''hello, what fertilizer do I need''
        = Inr ''greeting''"
      by code_simp
    note e = ascii_example[OF a i this]
    from f conjunct1[OF e] conjunct2[OF e]
    show "occurs_in ''fertilizer'' (normalize_query py ''hello, what fertilizer do I need'')
        \<and> classify py voice_service ''hello, what fertilizer do I need'' = Inr ''greeting''
        \<and> process_query py voice_service ''hello, what fertilizer do I need''
            = getitem (responses voice_service) ''greeting''"
      by (intro conjI)
  qed
qed

text \<open>
  The hypotheses of C2 hold, with the ASCII built-ins, for the greeting \<open>good morning\<close>
  in a query written in capitals that also names a weather trigger; the response is the
  non-empty entry of \<open>greeting\<close>.
\<close>

theorem greeting_precedence_witness:
  "occurs_in ''good morning'' (normalize_query ascii_builtins ''GOOD MORNING, will it rain?'')
   \<and> occurs_in ''rain'' (normalize_query ascii_builtins ''GOOD MORNING, will it rain?'')
   \<and> classify ascii_builtins voice_service ''GOOD MORNING, will it rain?'' = Inr ''greeting''
   \<and> (\<exists>r. map_of (responses voice_service) ''greeting'' = Some r \<and> r \<noteq> []
          \<and> process_query ascii_builtins voice_service ''GOOD MORNING, will it rain?'' = Inr r)"
proof -
  have h: "occurs_in ''good morning'' (normalize_query ascii_builtins ''GOOD MORNING, will it rain?'')"
    by code_simp
  have r: "occurs_in ''rain'' (normalize_query ascii_builtins ''GOOD MORNING, will it rain?'')"
    by code_simp
  have g: "''good morning'' \<in> {''hello'', ''hi'', ''hey'', ''good morning'', ''good afternoon'',
          ''good evening'', ''namaste'', ''greetings'', ''howdy''}"
    by simp
  note t = conjunct1[OF greeting_precedence[of "''good morning''" ascii_builtins
        "''GOOD MORNING, will it rain?''"], THEN mp, THEN mp, OF g h]
  have "''greeting'' \<in> set (map fst (responses voice_service))"
    by (simp add: response_keys)
  then obtain x where x: "getitem (responses voice_service) ''greeting'' = Inr x"
    "map_of (responses voice_service) ''greeting'' = Some x" "x \<noteq> []"
    using getitem_responses by blast
  from conjunct2[OF t] x(1)
  have p: "process_query ascii_builtins voice_service ''GOOD MORNING, will it rain?'' = Inr x"
    by simp
  from x(2,3) p
  have ex: "\<exists>r. map_of (responses voice_service) ''greeting'' = Some r \<and> r \<noteq> []
          \<and> process_query ascii_builtins voice_service ''GOOD MORNING, will it rain?'' = Inr r"
    by (intro exI conjI)
  from h r conjunct1[OF t] ex show ?thesis by (intro conjI)
qed

text \<open>
  Claim C3. A query whose normalized form contains no greeting substring and no trigger
  of any category is classified as \<open>default\<close> and answered with the default response,
  whatever the built-ins do. With built-ins that treat ASCII as the language fixes,
  \<open>asdkjasd\<close> and the empty string are such queries.
\<close>

theorem default_fallback:
  "(\<not> (\<exists>g \<in> set greetings. occurs_in g (normalize_query py q)) \<longrightarrow>
    (\<forall>(c, ks) \<in> set (query_patterns voice_service).
        \<forall>t \<in> set ks. \<not> occurs_in t (normalize_query py q)) \<longrightarrow>
      classify py voice_service q = Inr ''default''
      \<and> process_query py voice_service q = getitem (responses voice_service) ''default''
      \<and> score (query_patterns voice_service) (normalize_query py q) [] = [])
   \<and> (agrees_on_ascii py \<longrightarrow>
        classify py voice_service ''asdkjasd'' = Inr ''default''
        \<and> process_query py voice_service ''asdkjasd''
            = getitem (responses voice_service) ''default''
        \<and> classify py voice_service [] = Inr ''default''
        \<and> process_query py voice_service [] = getitem (responses voice_service) ''default'')"
proof (rule conjI)
  show "\<not> (\<exists>g \<in> set greetings. occurs_in g (normalize_query py q)) \<longrightarrow>
    (\<forall>(c, ks) \<in> set (query_patterns voice_service).
        \<forall>t \<in> set ks. \<not> occurs_in t (normalize_query py q)) \<longrightarrow>
      classify py voice_service q = Inr ''default''
      \<and> process_query py voice_service q = getitem (responses voice_service) ''default''
      \<and> score (query_patterns voice_service) (normalize_query py q) [] = []"
  proof (intro impI)
    assume "\<not> (\<exists>g \<in> set greetings. occurs_in g (normalize_query py q))"
    then have ng: "\<not> is_greeting (normalize_query py q)"
      by (simp add: is_greeting_iff)
    assume none: "\<forall>(c, ks) \<in> set (query_patterns voice_service).
        \<forall>t \<in> set ks. \<not> occurs_in t (normalize_query py q)"
    have zero: "\<forall>(c, ks) \<in> set (query_patterns voice_service).
        match_count ks (normalize_query py q) = 0"
    proof (clarify)
      fix c ks
      assume mem: "(c, ks) \<in> set (query_patterns voice_service)"
      with none have "\<forall>t \<in> set ks. \<not> occurs_in t (normalize_query py q)" by blast
      then have "spec_match_count ks (normalize_query py q) = 0"
        by (simp add: spec_match_count_zero)
      with mem show "match_count ks (normalize_query py q) = 0"
        by (simp add: match_count_spec distinct_triggers)
    qed
    from ng zero have c: "classify py voice_service q = Inr ''default''"
      by (rule classify_default)
    then have p: "process_query py voice_service q = getitem (responses voice_service) ''default''"
      by (rule selected_response)
    from zero have s: "score (query_patterns voice_service) (normalize_query py q) [] = []"
      unfolding matches_voice_service by (auto simp: filter_empty_conv)
    from c p s
    show "classify py voice_service q = Inr ''default''
      \<and> process_query py voice_service q = getitem (responses voice_service) ''default''
      \<and> score (query_patterns voice_service) (normalize_query py q) [] = []"
      by (intro conjI)
  qed
next
  show "agrees_on_ascii py \<longrightarrow>
        classify py voice_service ''asdkjasd'' = Inr ''default''
        \<and> process_query py voice_service ''asdkjasd''
            = getitem (responses voice_service) ''default''
        \<and> classify py voice_service [] = Inr ''default''
        \<and> process_query py voice_service [] = getitem (responses voice_service) ''default''"
  proof
    assume a: "agrees_on_ascii py"
    have i1: "is_ascii ''asdkjasd''" by code_simp
    have c1: "classify ascii_builtins voice_service ''asdkjasd'' = Inr ''default''" by code_simp
    have i2: "is_ascii []" by code_simp
    have c2: "classify ascii_builtins voice_service [] = Inr ''default''" by code_simp
    note e1 = ascii_example[OF a i1 c1]
    note e2 = ascii_example[OF a i2 c2]
    from conjunct1[OF e1] conjunct2[OF e1] conjunct1[OF e2] conjunct2[OF e2]
    show "classify py voice_service ''asdkjasd'' = Inr ''default''
        \<and> process_query py voice_service ''asdkjasd''
            = getitem (responses voice_service) ''default''
        \<and> classify py voice_service [] = Inr ''default''
        \<and> process_query py voice_service [] = getitem (responses voice_service) ''default''"
      by (intro conjI)
  qed
qed

text \<open>
  The hypotheses of C3 hold, with the ASCII built-ins, at a string of digits between
  blanks; the response is the non-empty entry of \<open>default\<close>.
\<close>

theorem default_fallback_witness:
  "\<not> (\<exists>g \<in> set greetings. occurs_in g (normalize_query ascii_builtins ''  12345  ''))
   \<and> normalize_query ascii_builtins ''  12345  '' = ''12345''
   \<and> classify ascii_builtins voice_service ''  12345  '' = Inr ''default''
   \<and> (\<exists>r. map_of (responses voice_service) ''default'' = Some r \<and> r \<noteq> []
          \<and> process_query ascii_builtins voice_service ''  12345  '' = Inr r)"
proof -
  have h1: "\<not> (\<exists>g \<in> set greetings. occurs_in g (normalize_query ascii_builtins ''  12345  ''))"
    by code_simp
  have h2: "\<forall>(c, ks) \<in> set (query_patterns voice_service).
           \<forall>t \<in> set ks. \<not> occurs_in t (normalize_query ascii_builtins ''  12345  '')"
    by code_simp
  have n: "normalize_query ascii_builtins ''  12345  '' = ''12345''"
    by code_simp
  note t = conjunct1[OF default_fallback[of ascii_builtins "''  12345  ''"], THEN mp, THEN mp,
      OF h1 h2]
  have "''default'' \<in> set (map fst (responses voice_service))"
    by (simp add: response_keys)
  then obtain x where x: "getitem (responses voice_service) ''default'' = Inr x"
    "map_of (responses voice_service) ''default'' = Some x" "x \<noteq> []"
    using getitem_responses by blast
  from conjunct1[OF conjunct2[OF t]] x(1)
  have p: "process_query ascii_builtins voice_service ''  12345  '' = Inr x"
    by simp
  from x(2,3) p
  have ex: "\<exists>r. map_of (responses voice_service) ''default'' = Some r \<and> r \<noteq> []
          \<and> process_query ascii_builtins voice_service ''  12345  '' = Inr r"
    by (intro exI conjI)
  from h1 n conjunct1[OF t] ex show ?thesis by (intro conjI)
qed

text \<open>
  Claim C4. \<open>process_query\<close> is total: for every query string, and whatever the
  built-ins return, the category is one of the ten keys of the response table, the table
  read succeeds (no \<open>KeyError\<close>, no \<open>ValueError\<close>), and the response returned is a
  non-empty string.
\<close>

theorem process_query_total:
  "\<exists>c r. classify py voice_service q = Inr c
     \<and> c \<in> {''weather'', ''prices'', ''disease'', ''fertilizer'', ''cultivation'', ''pest'',
            ''soil'', ''season'', ''greeting'', ''default''}
     \<and> getitem (responses voice_service) c = Inr r
     \<and> process_query py voice_service q = Inr r
     \<and> r \<noteq> []"
proof -
  obtain c where c: "classify py voice_service q = Inr c"
    "c \<in> set (map fst (responses voice_service))"
    using classify_closed by blast
  from c(2) obtain r where r: "getitem (responses voice_service) c = Inr r" "r \<noteq> []"
    using getitem_responses by blast
  from c(1) r(1) have p: "process_query py voice_service q = Inr r"
    by (simp add: process_query_classify)
  from c(2) have m: "c \<in> {''weather'', ''prices'', ''disease'', ''fertilizer'',
      ''cultivation'', ''pest'', ''soil'', ''season'', ''greeting'', ''default''}"
    unfolding response_keys by simp
  show ?thesis
    by (intro exI conjI) (rule c(1) m r(1) p r(2))+
qed

text \<open>C4 at the empty string and at a string of control and non-ASCII bytes.\<close>

theorem process_query_total_witness:
  "(\<exists>r. process_query ascii_builtins voice_service [] = Inr r \<and> r \<noteq> [])
   \<and> (\<exists>r. process_query ascii_builtins voice_service [CHR 0x00, CHR 0xFF, CHR 0x07] = Inr r
          \<and> r \<noteq> [])"
  using process_query_total[of ascii_builtins "[]"]
    process_query_total[of ascii_builtins "[CHR 0x00, CHR 0xFF, CHR 0x07]"]
  by blast

text \<open>
  Claim C5. The response to a query is the entry of the response table under the category
  of the query, unchanged.
\<close>

theorem respond_is_table_entry:
  "(\<exists>c r. classify py voice_service q = Inr c
      \<and> map_of (responses voice_service) c = Some r
      \<and> process_query py voice_service q = Inr r)
   \<and> process_query py self q =
       (case classify py self q of Inl e \<Rightarrow> Inl e | Inr c \<Rightarrow> getitem (responses self) c)"
proof -
  obtain c where c: "classify py voice_service q = Inr c"
    "c \<in> set (map fst (responses voice_service))"
    using classify_closed by blast
  from c(2) obtain r where r: "getitem (responses voice_service) c = Inr r"
    "map_of (responses voice_service) c = Some r"
    using getitem_responses by blast
  from c(1) r(1) have "process_query py voice_service q = Inr r"
    by (simp add: process_query_classify)
  with c(1) r(2) show ?thesis
    using process_query_classify[of py self q] by blast
qed

text \<open>C5 at a fertilizer question: the response is the table's entry for \<open>fertilizer\<close>.\<close>

theorem respond_is_table_entry_witness:
  "classify ascii_builtins voice_service ''What fertilizer should I use for corn?''
     = Inr ''fertilizer''
   \<and> (\<exists>r. map_of (responses voice_service) ''fertilizer'' = Some r
          \<and> process_query ascii_builtins voice_service ''What fertilizer should I use for corn?''
              = Inr r)"
proof -
  have c: "classify ascii_builtins voice_service ''What fertilizer should I use for corn?''
      = Inr ''fertilizer''"
    by code_simp
  with respond_is_table_entry[of ascii_builtins "''What fertilizer should I use for corn?''"
      voice_service]
  show ?thesis by auto
qed

text \<open>
  Claim C7. When lowercasing and stripping are idempotent and commute, the category and
  the response of a query do not change when the query is stripped and lowercased first
  (in either order): they do not depend on the case of the letters or on leading and
  trailing whitespace. With built-ins that treat ASCII as the language fixes,
  \<open>  WEATHER Today  \<close> is answered as \<open>weather today\<close> is, with the weather response.
\<close>

theorem classify_case_whitespace_insensitive:
  "(lower_strip_laws py \<longrightarrow>
      classify py self (str_lower py (str_strip py q)) = classify py self q
      \<and> process_query py self (str_lower py (str_strip py q)) = process_query py self q
      \<and> classify py self (str_strip py (str_lower py q)) = classify py self q
      \<and> process_query py self (str_strip py (str_lower py q)) = process_query py self q)
   \<and> (agrees_on_ascii py \<longrightarrow>
        classify py voice_service ''  WEATHER Today  '' = classify py voice_service ''weather today''
        \<and> process_query py voice_service ''  WEATHER Today  ''
            = process_query py voice_service ''weather today''
        \<and> process_query py voice_service ''  WEATHER Today  ''
            = getitem (responses voice_service) ''weather'')"
proof (rule conjI)
  show "lower_strip_laws py \<longrightarrow>
      classify py self (str_lower py (str_strip py q)) = classify py self q
      \<and> process_query py self (str_lower py (str_strip py q)) = process_query py self q
      \<and> classify py self (str_strip py (str_lower py q)) = classify py self q
      \<and> process_query py self (str_strip py (str_lower py q)) = process_query py self q"
  proof
    assume laws: "lower_strip_laws py"
    note a = normalize_lower_strip[OF laws, of q]
    note b = normalize_strip_lower[OF laws, of q]
    show "classify py self (str_lower py (str_strip py q)) = classify py self q
      \<and> process_query py self (str_lower py (str_strip py q)) = process_query py self q
      \<and> classify py self (str_strip py (str_lower py q)) = classify py self q
      \<and> process_query py self (str_strip py (str_lower py q)) = process_query py self q"
      using classify_normalized[OF a, of self] process_query_normalized[OF a, of self]
        classify_normalized[OF b, of self] process_query_normalized[OF b, of self]
      by (intro conjI)
  qed
next
  show "agrees_on_ascii py \<longrightarrow>
        classify py voice_service ''  WEATHER Today  '' = classify py voice_service ''weather today''
        \<and> process_query py voice_service ''  WEATHER Today  ''
            = process_query py voice_service ''weather today''
        \<and> process_query py voice_service ''  WEATHER Today  ''
            = getitem (responses voice_service) ''weather''"
  proof
    assume a: "agrees_on_ascii py"
    have i1: "is_ascii ''  WEATHER Today  ''" by code_simp
    have c1: "classify ascii_builtins voice_service ''  WEATHER Today  '' = Inr ''weather''"
      by code_simp
    have i2: "is_ascii ''weather today''" by code_simp
    have c2: "classify ascii_builtins voice_service ''weather today'' = Inr ''weather''"
      by code_simp
    note e1 = ascii_example[OF a i1 c1]
    note e2 = ascii_example[OF a i2 c2]
    from conjunct1[OF e1] conjunct1[OF e2]
    have x: "classify py voice_service ''  WEATHER Today  '' = classify py voice_service ''weather today''"
      by (simp only:)
    from conjunct2[OF e1] conjunct2[OF e2]
    have y: "process_query py voice_service ''  WEATHER Today  ''
            = process_query py voice_service ''weather today''"
      by (simp only:)
    from x y conjunct2[OF e1]
    show "classify py voice_service ''  WEATHER Today  '' = classify py voice_service ''weather today''
        \<and> process_query py voice_service ''  WEATHER Today  ''
            = process_query py voice_service ''weather today''
        \<and> process_query py voice_service ''  WEATHER Today  ''
            = getitem (responses voice_service) ''weather''"
      by (intro conjI)
  qed
qed

text \<open>
  The ASCII built-ins satisfy the laws; C7 at a query in mixed case between a tab and a
  line feed, which is answered as \<open>seeds\<close> is, with the cultivation response.
\<close>

theorem classify_case_whitespace_insensitive_witness:
  "lower_strip_laws ascii_builtins
   \<and> str_lower ascii_builtins (str_strip ascii_builtins
        [CHR 0x09, CHR ''S'', CHR ''e'', CHR ''E'', CHR ''d'', CHR ''s'', CHR 0x0A]) = ''seeds''
   \<and> process_query ascii_builtins voice_service
        [CHR 0x09, CHR ''S'', CHR ''e'', CHR ''E'', CHR ''d'', CHR ''s'', CHR 0x0A]
       = process_query ascii_builtins voice_service ''seeds''
   \<and> process_query ascii_builtins voice_service ''seeds''
       = getitem (responses voice_service) ''cultivation''"
proof -
  let ?q = "[CHR 0x09, CHR ''S'', CHR ''e'', CHR ''E'', CHR ''d'', CHR ''s'', CHR 0x0A]"
  have n: "str_lower ascii_builtins (str_strip ascii_builtins ?q) = ''seeds''" by code_simp
  have c: "process_query ascii_builtins voice_service ''seeds''
      = getitem (responses voice_service) ''cultivation''"
    by code_simp
  note t = conjunct1[OF classify_case_whitespace_insensitive[of ascii_builtins voice_service ?q],
      THEN mp, OF ascii_laws]
  from conjunct1[OF conjunct2[OF t]] n
  have "process_query ascii_builtins voice_service ?q
      = process_query ascii_builtins voice_service ''seeds''"
    by simp
  with ascii_laws n c show ?thesis by (intro conjI)
qed

text \<open>
  Claim C8. \<open>get_help_response\<close> reads nothing of the instance and takes no other
  argument: it returns the same dictionary on every call, with the two keys \<open>features\<close>
  and \<open>sample_queries\<close>, each holding a list of strings (five features, six sample
  queries).
\<close>

theorem get_help_response_static:
  "get_help_response self = get_help_response self'
   \<and> get_help_response (serve py voice_service history) = get_help_response init
   \<and> map fst (get_help_response self) = [''features'', ''sample_queries'']
   \<and> (\<exists>features sample_queries.
         getitem (get_help_response self) ''features'' = Inr features
         \<and> getitem (get_help_response self) ''sample_queries'' = Inr sample_queries
         \<and> length features = 5 \<and> length sample_queries = 6
         \<and> [] \<notin> set features \<and> [] \<notin> set sample_queries)"
  by (simp add: get_help_response_def getitem_def)

text \<open>C8 for the instance at start and the instance after two requests.\<close>

theorem get_help_response_static_witness:
  "get_help_response (serve ascii_builtins voice_service [''hello'', ''soil''])
     = get_help_response init
   \<and> map fst (get_help_response init) = [''features'', ''sample_queries'']"
proof -
  note t = get_help_response_static[of init init ascii_builtins "[''hello'', ''soil'']"]
  note a = conjunct1[OF conjunct2[OF t]]
  note b = conjunct1[OF conjunct2[OF conjunct2[OF t]]]
  from a b show ?thesis by (intro conjI)
qed

text \<open>
  Claim C9. The greeting list contains the two-letter string \<open>hi\<close> and the test is
  substring containment, so every query whose normalized form contains \<open>hi\<close> anywhere is
  answered with the greeting; when stripping only removes, from the two ends, characters
  that are ASCII whitespace or not ASCII, so is every query whose lowercased form contains
  \<open>hi\<close>. With built-ins that treat ASCII as the language fixes,
  \<open>which fertilizer for paddy\<close> contains \<open>hi\<close> inside \<open>which\<close> and is classified as
  \<open>greeting\<close>, although it contains the trigger \<open>fertilizer\<close>; so is a query with the
  word \<open>machine\<close> and six trigger words.
\<close>

theorem hi_substring_is_greeting:
  "(occurs_in ''hi'' (normalize_query py q) \<longrightarrow>
      classify py voice_service q = Inr ''greeting''
      \<and> process_query py voice_service q = getitem (responses voice_service) ''greeting'')
   \<and> (strip_trims py \<longrightarrow> occurs_in ''hi'' (str_lower py q) \<longrightarrow>
        classify py voice_service q = Inr ''greeting''
        \<and> process_query py voice_service q = getitem (responses voice_service) ''greeting'')
   \<and> ''hi'' \<in> set greetings
   \<and> (agrees_on_ascii py \<longrightarrow>
        occurs_in ''fertilizer'' (normalize_query py ''which fertilizer for paddy'')
        \<and> classify py voice_service ''which fertilizer for paddy'' = Inr ''greeting''
        \<and> process_query py voice_service ''which fertilizer for paddy''
            = getitem (responses voice_service) ''greeting''
        \<and> classify py voice_service ''machine for soil, seed, water, harvest, rain and pest''
            = Inr ''greeting''
        \<and> process_query py voice_service ''machine for soil, seed, water, harvest, rain and pest''
            = getitem (responses voice_service) ''greeting'')"
proof -
  have hi: "''hi'' \<in> set greetings" by (simp add: greetings_def)
  have norm: "classify py voice_service q = Inr ''greeting''
      \<and> process_query py voice_service q = getitem (responses voice_service) ''greeting''"
    if "occurs_in ''hi'' (normalize_query py q)"
  proof -
    from that hi have "is_greeting (normalize_query py q)"
      unfolding is_greeting_iff by (rule_tac x = "''hi''" in bexI)
    then have "classify py voice_service q = Inr ''greeting''" by (rule classify_greeting)
    then show ?thesis by (simp add: selected_response)
  qed
  have low: "classify py voice_service q = Inr ''greeting''
      \<and> process_query py voice_service q = getitem (responses voice_service) ''greeting''"
    if t: "strip_trims py" and o: "occurs_in ''hi'' (str_lower py q)"
  proof -
    have "occurs_in ''hi'' (str_strip py (str_lower py q))"
      using t o
      by (rule occurs_in_trimmed) (simp_all add: is_ascii_char_def ascii_isspace_def ascii_whitespace_def)
    then have "occurs_in ''hi'' (normalize_query py q)" by (simp add: normalize_query_def)
    then show ?thesis by (rule norm)
  qed
  have ex: "occurs_in ''fertilizer'' (normalize_query py ''which fertilizer for paddy'')
        \<and> classify py voice_service ''which fertilizer for paddy'' = Inr ''greeting''
        \<and> process_query py voice_service ''which fertilizer for paddy''
            = getitem (responses voice_service) ''greeting''
        \<and> classify py voice_service ''machine for soil, seed, water, harvest, rain and pest''
            = Inr ''greeting''
        \<and> process_query py voice_service ''machine for soil, seed, water, harvest, rain and pest''
            = getitem (responses voice_service) ''greeting''"
    if a: "agrees_on_ascii py"
  proof -
    have i1: "is_ascii ''which fertilizer for paddy''" by code_simp
    have c1: "classify ascii_builtins voice_service ''which fertilizer for paddy''
        = Inr ''greeting''"
      by code_simp
    have o1: "occurs_in ''fertilizer'' (normalize_query ascii_builtins ''which fertilizer for paddy'')"
      by code_simp
    have i2: "is_ascii ''machine for soil, seed, water, harvest, rain and pest''" by code_simp
    have c2: "classify ascii_builtins voice_service
        ''machine for soil, seed, water, harvest, rain and pest'' = Inr ''greeting''"
      by code_simp
    from o1 have o: "occurs_in ''fertilizer'' (normalize_query py ''which fertilizer for paddy'')"
      by (simp only: ascii_query(3)[OF a i1])
    note e1 = ascii_example[OF a i1 c1]
    note e2 = ascii_example[OF a i2 c2]
    from o conjunct1[OF e1] conjunct2[OF e1] conjunct1[OF e2] conjunct2[OF e2]
    show ?thesis by (intro conjI)
  qed
  from norm low hi ex show ?thesis by blast
qed

text \<open>
  The hypotheses of C9 hold with the ASCII built-ins for \<open>Is THIS crop sick?\<close>: its
  lowercased form contains \<open>hi\<close> inside \<open>this\<close>, the two disease triggers in it do not
  count, and the response returned is the non-empty entry of \<open>greeting\<close>.
\<close>

theorem hi_substring_is_greeting_witness:
  "strip_trims ascii_builtins
   \<and> occurs_in ''hi'' (str_lower ascii_builtins ''  Is THIS crop sick?'')
   \<and> occurs_in ''crop'' (normalize_query ascii_builtins ''  Is THIS crop sick?'')
   \<and> occurs_in ''sick'' (normalize_query ascii_builtins ''  Is THIS crop sick?'')
   \<and> classify ascii_builtins voice_service ''  Is THIS crop sick?'' = Inr ''greeting''
   \<and> (\<exists>r. map_of (responses voice_service) ''greeting'' = Some r \<and> r \<noteq> []
          \<and> process_query ascii_builtins voice_service ''  Is THIS crop sick?'' = Inr r)"
proof -
  have h: "occurs_in ''hi'' (str_lower ascii_builtins ''  Is THIS crop sick?'')" by code_simp
  have a: "occurs_in ''crop'' (normalize_query ascii_builtins ''  Is THIS crop sick?'')"
    by code_simp
  have b: "occurs_in ''sick'' (normalize_query ascii_builtins ''  Is THIS crop sick?'')"
    by code_simp
  note t = conjunct1[OF conjunct2[OF hi_substring_is_greeting[of ascii_builtins
        "''  Is THIS crop sick?''"]], THEN mp, THEN mp, OF ascii_trims h]
  have "''greeting'' \<in> set (map fst (responses voice_service))"
    by (simp add: response_keys)
  then obtain r where r: "getitem (responses voice_service) ''greeting'' = Inr r"
    "map_of (responses voice_service) ''greeting'' = Some r" "r \<noteq> []"
    using getitem_responses by blast
  from conjunct2[OF t] r(1)
  have p: "process_query ascii_builtins voice_service ''  Is THIS crop sick?'' = Inr r"
    by simp
  from r(2,3) p
  have ex: "\<exists>r. map_of (responses voice_service) ''greeting'' = Some r \<and> r \<noteq> []
          \<and> process_query ascii_builtins voice_service ''  Is THIS crop sick?'' = Inr r"
    by (intro exI conjI)
  from ascii_trims h a b conjunct1[OF t] ex show ?thesis by (intro conjI)
qed

text \<open>
  Claim C10. The trigger \<open>pest\<close> is listed under the categories \<open>disease\<close> and \<open>pest\<close>
  and the trigger \<open>soil\<close> under \<open>fertilizer\<close> and \<open>soil\<close>. Among the categories with
  the highest count the first in the insertion order of the keyword table (\<open>weather\<close>,
  \<open>prices\<close>, \<open>disease\<close>, \<open>fertilizer\<close>, \<open>cultivation\<close>, \<open>pest\<close>, \<open>soil\<close>,
  \<open>season\<close>) is selected and its response returned. With built-ins that treat ASCII as
  the language fixes, the query \<open>pest\<close>, which gives \<open>disease\<close> and \<open>pest\<close> one match
  each, is answered as \<open>disease\<close>, and the query \<open>soil\<close> as \<open>fertilizer\<close>.
\<close>

theorem tie_break_insertion_order:
  "(query_patterns voice_service = pre @ (c, ks) # post
      \<and> \<not> is_greeting (normalize_query py q)
      \<and> 0 < match_count ks (normalize_query py q)
      \<and> (\<forall>(c', ks') \<in> set pre.
            match_count ks' (normalize_query py q) < match_count ks (normalize_query py q))
      \<and> (\<forall>(c', ks') \<in> set post.
            match_count ks' (normalize_query py q) \<le> match_count ks (normalize_query py q))
     \<longrightarrow> classify py voice_service q = Inr c
         \<and> process_query py voice_service q = getitem (responses voice_service) c)
   \<and> map fst (query_patterns voice_service) =
       [''weather'', ''prices'', ''disease'', ''fertilizer'', ''cultivation'', ''pest'',
        ''soil'', ''season'']
   \<and> map fst (filter (\<lambda>(c, ks). ''pest'' \<in> set ks) (query_patterns voice_service)) =
       [''disease'', ''pest'']
   \<and> map fst (filter (\<lambda>(c, ks). ''soil'' \<in> set ks) (query_patterns voice_service)) =
       [''fertilizer'', ''soil'']
   \<and> (agrees_on_ascii py \<longrightarrow>
        score (query_patterns voice_service) (normalize_query py ''pest'') [] =
          [(''disease'', 1), (''pest'', 1)]
        \<and> classify py voice_service ''pest'' = Inr ''disease''
        \<and> process_query py voice_service ''pest'' = getitem (responses voice_service) ''disease''
        \<and> process_query py voice_service ''pest'' \<noteq> getitem (responses voice_service) ''pest''
        \<and> score (query_patterns voice_service) (normalize_query py ''soil'') [] =
          [(''fertilizer'', 1), (''soil'', 1)]
        \<and> classify py voice_service ''soil'' = Inr ''fertilizer''
        \<and> process_query py voice_service ''soil''
            = getitem (responses voice_service) ''fertilizer''
        \<and> process_query py voice_service ''soil'' \<noteq> getitem (responses voice_service) ''soil'')"
proof -
  have gen: "classify py voice_service q = Inr c
         \<and> process_query py voice_service q = getitem (responses voice_service) c"
    if tbl: "query_patterns voice_service = pre @ (c, ks) # post"
      and ng: "\<not> is_greeting (normalize_query py q)"
      and pos: "0 < match_count ks (normalize_query py q)"
      and pre: "\<forall>(c', ks') \<in> set pre.
            match_count ks' (normalize_query py q) < match_count ks (normalize_query py q)"
      and post: "\<forall>(c', ks') \<in> set post.
            match_count ks' (normalize_query py q) \<le> match_count ks (normalize_query py q)"
  proof -
    have "classify py voice_service q = Inr c"
      using tbl ng pos pre post by (rule classify_first_max)
    then show ?thesis by (simp add: selected_response)
  qed
  have f1: "map fst (filter (\<lambda>(c, ks). ''pest'' \<in> set ks) (query_patterns voice_service)) =
       [''disease'', ''pest'']"
    by code_simp
  have f2: "map fst (filter (\<lambda>(c, ks). ''soil'' \<in> set ks) (query_patterns voice_service)) =
       [''fertilizer'', ''soil'']"
    by code_simp
  have ex: "score (query_patterns voice_service) (normalize_query py ''pest'') [] =
          [(''disease'', 1), (''pest'', 1)]
        \<and> classify py voice_service ''pest'' = Inr ''disease''
        \<and> process_query py voice_service ''pest'' = getitem (responses voice_service) ''disease''
        \<and> process_query py voice_service ''pest'' \<noteq> getitem (responses voice_service) ''pest''
        \<and> score (query_patterns voice_service) (normalize_query py ''soil'') [] =
          [(''fertilizer'', 1), (''soil'', 1)]
        \<and> classify py voice_service ''soil'' = Inr ''fertilizer''
        \<and> process_query py voice_service ''soil''
            = getitem (responses voice_service) ''fertilizer''
        \<and> process_query py voice_service ''soil'' \<noteq> getitem (responses voice_service) ''soil''"
    if a: "agrees_on_ascii py"
  proof -
    have i1: "is_ascii ''pest''" by code_simp
    have i2: "is_ascii ''soil''" by code_simp
    have s1: "score (query_patterns voice_service) (normalize_query ascii_builtins ''pest'') [] =
          [(''disease'', 1), (''pest'', 1)]"
      by code_simp
    have s2: "score (query_patterns voice_service) (normalize_query ascii_builtins ''soil'') [] =
          [(''fertilizer'', 1), (''soil'', 1)]"
      by code_simp
    have c1: "classify ascii_builtins voice_service ''pest'' = Inr ''disease''" by code_simp
    have c2: "classify ascii_builtins voice_service ''soil'' = Inr ''fertilizer''" by code_simp
    have d1: "getitem (responses voice_service) ''disease''
        \<noteq> getitem (responses voice_service) ''pest''"
      by code_simp
    have d2: "getitem (responses voice_service) ''fertilizer''
        \<noteq> getitem (responses voice_service) ''soil''"
      by code_simp
    from s1 have t1: "score (query_patterns voice_service) (normalize_query py ''pest'') [] =
          [(''disease'', 1), (''pest'', 1)]"
      by (simp only: ascii_query(3)[OF a i1])
    from s2 have t2: "score (query_patterns voice_service) (normalize_query py ''soil'') [] =
          [(''fertilizer'', 1), (''soil'', 1)]"
      by (simp only: ascii_query(3)[OF a i2])
    note e1 = ascii_example[OF a i1 c1]
    note e2 = ascii_example[OF a i2 c2]
    have n1: "process_query py voice_service ''pest'' \<noteq> getitem (responses voice_service) ''pest''"
      unfolding conjunct2[OF e1] by (rule d1)
    have n2: "process_query py voice_service ''soil'' \<noteq> getitem (responses voice_service) ''soil''"
      unfolding conjunct2[OF e2] by (rule d2)
    from t1 conjunct1[OF e1] conjunct2[OF e1] n1 t2 conjunct1[OF e2] conjunct2[OF e2] n2
    show ?thesis by (intro conjI)
  qed
  from gen categories_voice_service f1 f2 ex show ?thesis by blast
qed

text \<open>
  The hypotheses of C10 hold with the ASCII built-ins at \<open>crop price\<close>: \<open>prices\<close>
  (through \<open>price\<close>) and \<open>disease\<close> (through \<open>crop\<close>) have one match each, \<open>weather\<close>
  before them has none, and the response of the earlier of the two, \<open>prices\<close>, is
  returned.
\<close>

theorem tie_break_insertion_order_witness:
  "score (query_patterns voice_service) (normalize_query ascii_builtins ''crop price'') [] =
     [(''prices'', 1), (''disease'', 1)]
   \<and> classify ascii_builtins voice_service ''crop price'' = Inr ''prices''
   \<and> (\<exists>r. map_of (responses voice_service) ''prices'' = Some r \<and> r \<noteq> []
          \<and> process_query ascii_builtins voice_service ''crop price'' = Inr r)"
proof -
  let ?pre = "[(''weather'', [''weather'', ''temperature'', ''rain'', ''climate'', ''forecast'',
                     ''sunny'', ''cloudy'', ''humidity''])]"
  let ?ks = "[''price'', ''cost'', ''market'', ''sell'', ''buy'', ''rate'',
                    ''expensive'', ''cheap'', ''rupees'']"
  let ?post = "[(''disease'', [''disease'', ''sick'', ''problem'', ''leaf'', ''plant'', ''crop'',
                     ''infection'', ''pest'', ''spots'', ''yellow'']),
      (''fertilizer'', [''fertilizer'', ''nutrient'', ''soil'', ''compost'', ''manure'',
                        ''nitrogen'', ''phosphorus'', ''potassium'']),
      (''cultivation'', [''seed'', ''planting'', ''growing'', ''cultivation'', ''harvest'',
                         ''farming'', ''irrigation'', ''water'']),
      (''pest'', [''pest'', ''insect'', ''bug'', ''caterpillar'', ''aphid'', ''mite'',
                  ''larvae'']),
      (''soil'', [''soil'', ''ph'', ''acidity'', ''alkaline'', ''drainage'', ''clay'',
                  ''sand'', ''loam'']),
      (''season'', [''season'', ''monsoon'', ''winter'', ''summer'', ''sowing'',
                    ''timing''])]"
  let ?n = "normalize_query ascii_builtins ''crop price''"
  have tbl: "query_patterns voice_service = ?pre @ (''prices'', ?ks) # ?post"
    by (simp add: query_patterns_voice_service)
  have ng: "\<not> is_greeting ?n"
    by code_simp
  have pos: "0 < match_count ?ks ?n"
    by code_simp
  have pre: "\<forall>(c', ks') \<in> set ?pre. match_count ks' ?n < match_count ?ks ?n"
    by code_simp
  have post: "\<forall>(c', ks') \<in> set ?post. match_count ks' ?n \<le> match_count ?ks ?n"
    by code_simp
  have m: "score (query_patterns voice_service) ?n [] = [(''prices'', 1), (''disease'', 1)]"
    by code_simp
  from tbl ng pos pre post
  have hyp: "query_patterns voice_service = ?pre @ (''prices'', ?ks) # ?post
      \<and> \<not> is_greeting ?n
      \<and> 0 < match_count ?ks ?n
      \<and> (\<forall>(c', ks') \<in> set ?pre. match_count ks' ?n < match_count ?ks ?n)
      \<and> (\<forall>(c', ks') \<in> set ?post. match_count ks' ?n \<le> match_count ?ks ?n)"
    by (intro conjI)
  note t = conjunct1[OF tie_break_insertion_order[of ?pre "''prices''" ?ks ?post ascii_builtins
        "''crop price''"], THEN mp, OF hyp]
  have "''prices'' \<in> set (map fst (responses voice_service))"
    by (simp add: response_keys)
  then obtain r where r: "getitem (responses voice_service) ''prices'' = Inr r"
    "map_of (responses voice_service) ''prices'' = Some r" "r \<noteq> []"
    using getitem_responses by blast
  from conjunct2[OF t] r(1)
  have p: "process_query ascii_builtins voice_service ''crop price'' = Inr r"
    by simp
  from r(2,3) p
  have ex: "\<exists>r. map_of (responses voice_service) ''prices'' = Some r \<and> r \<noteq> []
          \<and> process_query ascii_builtins voice_service ''crop price'' = Inr r"
    by (intro exI conjI)
  from m conjunct1[OF t] ex show ?thesis by (intro conjI)
qed

section \<open>Further properties\<close>

text \<open>
  The responses of the table are pairwise different, so the category of a query can be read
  off the response: it is the one key of the table whose entry \<open>process_query\<close> returns.
\<close>

theorem category_of_response:
  assumes "process_query py voice_service q = Inr r"
    and "map_of (responses voice_service) c = Some r"
  shows "classify py voice_service q = Inr c"
proof -
  obtain c' where c': "classify py voice_service q = Inr c'"
    "c' \<in> set (map fst (responses voice_service))"
    using classify_closed by blast
  from c'(2) obtain r' where r': "getitem (responses voice_service) c' = Inr r'"
    "map_of (responses voice_service) c' = Some r'"
    using getitem_responses by blast
  from c'(1) r'(1) assms(1) have "r' = r"
    by (simp add: process_query_classify)
  with r'(2) have m1: "(c', r) \<in> set (responses voice_service)"
    by (auto dest: map_of_SomeD)
  from assms(2) have m2: "(c, r) \<in> set (responses voice_service)"
    by (rule map_of_SomeD)
  from responses_distinct have inj: "inj_on snd (set (responses voice_service))"
    by (simp add: distinct_map)
  have eq: "snd (c', r) = snd (c, r)" by simp
  from inj eq m1 m2 have "(c', r) = (c, r)" by (rule inj_onD)
  then have "c' = c" by simp
  with c'(1) show ?thesis by simp
qed

text \<open>The greeting response to \<open>hello\<close> identifies the category \<open>greeting\<close>.\<close>

theorem category_of_response_witness:
  "\<exists>r. map_of (responses voice_service) ''greeting'' = Some r
      \<and> process_query ascii_builtins voice_service ''hello'' = Inr r
      \<and> classify ascii_builtins voice_service ''hello'' = Inr ''greeting''"
proof -
  have "''greeting'' \<in> set (map fst (responses voice_service))"
    by (simp add: response_keys)
  then obtain r where r: "getitem (responses voice_service) ''greeting'' = Inr r"
    "map_of (responses voice_service) ''greeting'' = Some r"
    using getitem_responses by blast
  have "is_greeting (normalize_query ascii_builtins ''hello'')" by code_simp
  with r(1) have p: "process_query ascii_builtins voice_service ''hello'' = Inr r"
    by (simp add: process_query_def)
  note c = category_of_response[OF p r(2)]
  from r(2) p c show ?thesis by (intro exI conjI)
qed

text \<open>
  The query \<open>soil price\<close> gives \<open>prices\<close>, \<open>fertilizer\<close> and \<open>soil\<close> one match each
  (\<open>soil\<close> is a trigger of both \<open>fertilizer\<close> and \<open>soil\<close>); with built-ins that treat
  ASCII as the language fixes, the first of the three in the keyword table, \<open>prices\<close>, is
  selected and its response returned.
\<close>

theorem soil_price_is_prices:
  "agrees_on_ascii py \<Longrightarrow>
   score (query_patterns voice_service) (normalize_query py ''soil price'') [] =
     [(''prices'', 1), (''fertilizer'', 1), (''soil'', 1)]
   \<and> classify py voice_service ''soil price'' = Inr ''prices''
   \<and> process_query py voice_service ''soil price'' = getitem (responses voice_service) ''prices''"
proof -
  assume a: "agrees_on_ascii py"
  have i: "is_ascii ''soil price''" by code_simp
  have s: "score (query_patterns voice_service) (normalize_query ascii_builtins ''soil price'') [] =
     [(''prices'', 1), (''fertilizer'', 1), (''soil'', 1)]"
    by code_simp
  have c: "classify ascii_builtins voice_service ''soil price'' = Inr ''prices''" by code_simp
  from s have t: "score (query_patterns voice_service) (normalize_query py ''soil price'') [] =
     [(''prices'', 1), (''fertilizer'', 1), (''soil'', 1)]"
    by (simp only: ascii_query(3)[OF a i])
  note e = ascii_example[OF a i c]
  from t conjunct1[OF e] conjunct2[OF e] show ?thesis by (intro conjI)
qed

text \<open>The ASCII built-ins agree with the language on ASCII.\<close>

theorem soil_price_is_prices_witness:
  "agrees_on_ascii ascii_builtins
   \<and> classify ascii_builtins voice_service ''soil price'' = Inr ''prices''
   \<and> (\<exists>r. map_of (responses voice_service) ''prices'' = Some r \<and> r \<noteq> []
          \<and> process_query ascii_builtins voice_service ''soil price'' = Inr r)"
proof -
  note t = soil_price_is_prices[OF ascii_agrees]
  have "''prices'' \<in> set (map fst (responses voice_service))"
    by (simp add: response_keys)
  then obtain r where r: "getitem (responses voice_service) ''prices'' = Inr r"
    "map_of (responses voice_service) ''prices'' = Some r" "r \<noteq> []"
    using getitem_responses by blast
  from conjunct2[OF conjunct2[OF t]] r(1)
  have p: "process_query ascii_builtins voice_service ''soil price'' = Inr r"
    by simp
  from r(2,3) p
  have ex: "\<exists>r. map_of (responses voice_service) ''prices'' = Some r \<and> r \<noteq> []
          \<and> process_query ascii_builtins voice_service ''soil price'' = Inr r"
    by (intro exI conjI)
  from ascii_agrees conjunct1[OF conjunct2[OF t]] ex show ?thesis by (intro conjI)
qed

end
